theory Spec2Isabelle
  imports Complex_Main "HOL-Library.Log_Nat" "HOL-Library.List_Lexorder" "HOL-Library.Char_ord"
begin

section \<open>Numbers\<close>

text \<open>
  A JavaScript number is modelled by the rational it denotes. Every arithmetic
  operation of the source is written as the exact operation followed by the rounding
  \<open>fl\<close> of the number system, which is a parameter of the model:
  \<^item> \<open>binary64\<close> rounds to the nearest IEEE 754 double, ties to even, which is what
    the JavaScript engine does: the program is the model at \<open>fl = binary64\<close>. In the
    amount distributor overflow and subnormal numbers are not modelled, the values met
    there lie between \<open>2\<^sup>-\<^sup>1\<^sup>0\<^sup>0\<close> and \<open>2\<^sup>1\<^sup>0\<^sup>0\<close>; the validator, which reads any
    decimal literal, rounds with \<open>Number_value\<close> over the whole range.
  \<^item> \<open>exact\<close> rounds nothing. It is ideal decimal arithmetic, not what the engine
    computes, and serves only to tell what the algorithm does apart from what rounding
    adds to it.
  Comparisons, \<open>Math.min\<close>, \<open>Math.max\<close>, \<open>Math.abs\<close> and \<open>Math.round\<close> are exact
  in JavaScript and carry no rounding.
\<close>

definition exact :: "rat \<Rightarrow> rat" where
  "exact x = x"

definition pow2 :: "int \<Rightarrow> rat" where
  "pow2 e = (if 0 \<le> e then 2 ^ nat e else 1 / 2 ^ nat (- e))"

text \<open>
  The exponent of a positive rational: the integer \<open>e\<close> with \<open>2\<^sup>e \<le> a < 2\<^sup>e\<^sup>+\<^sup>1\<close>
  (\<open>bitlen\<close> is the number of binary digits of an integer).
\<close>

definition ilog2 :: "rat \<Rightarrow> int" where
  "ilog2 a =
     (if 1 \<le> a then bitlen \<lfloor>a\<rfloor> - 1 else - bitlen (\<lceil>1 / a\<rceil> - 1))"

definition roundTiesToEven :: "rat \<Rightarrow> int" where
  "roundTiesToEven m =
     (let k = \<lfloor>m\<rfloor>; d = m - of_int k
      in if d < 1 / 2 then k else if 1 / 2 < d then k + 1 else if even k then k else k + 1)"

text \<open>The double nearest to \<open>x\<close>: a 53-bit significand times a power of two.\<close>

definition binary64 :: "rat \<Rightarrow> rat" where
  "binary64 x =
     (if x = 0 then 0
      else let e = ilog2 \<bar>x\<bar> - 52
           in of_int (roundTiesToEven (x / pow2 e)) * pow2 e)"

text \<open>\<open>Math.round(x)\<close>: the nearest integer, a tie going up.\<close>

definition Math_round :: "rat \<Rightarrow> int" where
  "Math_round x = \<lfloor>x + 1 / 2\<rfloor>"

text \<open>
  A source of \<open>Math.random()\<close>: the function \<open>random\<close> gives the value of the
  \<open>i\<close>-th call, a number in \<open>[0, 1)\<close>.
\<close>

definition unit_draws :: "(nat \<Rightarrow> rat) \<Rightarrow> bool" where
  "unit_draws random = (\<forall>i. 0 \<le> random i \<and> random i < 1)"

definition half_draws :: "nat \<Rightarrow> rat" where
  "half_draws i = 1 / 2"


section \<open>Amount distributor (utils/amountDistributor.js)\<close>

datatype dist_error =
    TotalNotPositive
  | BillsBelowOne
  | MaxNotPositive
  | MaxTooSmall
  | AmountNotPositive nat
  | AmountExceedsMax nat

text \<open>The expression \<open>Math.round(x * 100) / 100\<close>, which the source writes five times.\<close>

definition round2 :: "(rat \<Rightarrow> rat) \<Rightarrow> rat \<Rightarrow> rat" where
  "round2 fl x = fl (of_int (Math_round (fl (x * 100))) / 100)"

text \<open>The literal \<open>0.01\<close> of the source, \<open>minAmountPerBill\<close>.\<close>

definition minAmountPerBill :: "(rat \<Rightarrow> rat) \<Rightarrow> rat" where
  "minAmountPerBill fl = fl (1 / 100)"

text \<open>
  The \<open>for\<close> loop over \<open>i < numberOfBills - 1\<close> and the assignment of the last bill
  after it. The array \<open>amounts\<close> is filled from index 0 upwards, so it is returned as
  the list of the values in that order; \<open>remaining\<close> is passed along.
\<close>

function distribute_loop ::
  "(rat \<Rightarrow> rat) \<Rightarrow> (nat \<Rightarrow> rat) \<Rightarrow> nat \<Rightarrow> rat \<Rightarrow> nat \<Rightarrow> rat \<Rightarrow> rat list" where
  "distribute_loop fl random numberOfBills maxAmountPerBill i remaining =
     (if i + 1 < numberOfBills then
        (let remainingBills = numberOfBills - i - 1;
             maxForThisBill = min maxAmountPerBill
               (fl (remaining - fl (of_nat remainingBills * minAmountPerBill fl)));
             minForThisBill = max (minAmountPerBill fl)
               (fl (remaining - fl (of_nat remainingBills * maxAmountPerBill)));
             randomAmount =
               fl (minForThisBill + fl (random i * fl (maxForThisBill - minForThisBill)));
             amount = round2 fl randomAmount
         in amount #
            distribute_loop fl random numberOfBills maxAmountPerBill (Suc i)
              (fl (remaining - amount)))
      else [round2 fl remaining])"
  by pat_completeness auto
termination
  by (relation "measure (\<lambda>(fl, random, numberOfBills, maxAmountPerBill, i, remaining).
        numberOfBills - i)") auto

declare distribute_loop.simps [simp del]

text \<open>The final validation loop: the first bill out of bounds raises, numbered from 1.\<close>

fun check_amounts :: "rat \<Rightarrow> nat \<Rightarrow> rat list \<Rightarrow> dist_error option" where
  "check_amounts maxAmountPerBill i [] = None"
| "check_amounts maxAmountPerBill i (a # as) =
     (if a \<le> 0 then Some (AmountNotPositive (i + 1))
      else if a > maxAmountPerBill then Some (AmountExceedsMax (i + 1))
      else check_amounts maxAmountPerBill (i + 1) as)"

definition distributeAmount ::
  "(rat \<Rightarrow> rat) \<Rightarrow> (nat \<Rightarrow> rat) \<Rightarrow> rat \<Rightarrow> int \<Rightarrow> rat \<Rightarrow> dist_error + rat list" where
  "distributeAmount fl random totalAmount numberOfBills maxAmountPerBill =
     (if totalAmount \<le> 0 then Inl TotalNotPositive
      else if numberOfBills < 1 then Inl BillsBelowOne
      else if maxAmountPerBill \<le> 0 then Inl MaxNotPositive
      else if fl (maxAmountPerBill * of_int numberOfBills) < totalAmount then Inl MaxTooSmall
      else
        (let amounts =
               distribute_loop fl random (nat numberOfBills) maxAmountPerBill 0 totalAmount
         in case check_amounts maxAmountPerBill 0 amounts of
              Some err \<Rightarrow> Inl err
            | None \<Rightarrow>
               (let sum = foldl (\<lambda>acc val. fl (acc + val)) 0 amounts;
                    roundedSum = round2 fl sum;
                    roundedTotal = round2 fl totalAmount
                in if \<bar>fl (roundedSum - roundedTotal)\<bar> > fl (1 / 100) then
                     (let diff = fl (roundedTotal - roundedSum);
                          last = nat numberOfBills - 1
                      in Inr (amounts[last := round2 fl (fl (amounts ! last + diff))]))
                   else Inr amounts)))"



section \<open>Date generator (utils/dateGenerator.js)\<close>

text \<open>
  The repository holds two revisions of this module. The first builds its dates with
  \<open>new Date(string)\<close> and reads them back with the local-time getters
  (\<open>getFullYear\<close>, \<open>getMonth\<close>, \<open>getDate\<close>); the second parses with its own
  \<open>parseDate\<close> through \<open>Date.UTC\<close> and reads back with the UTC getters. The functions
  of the second revision carry the suffix \<open>_utc\<close> here.

  A \<open>YYYY-MM-DD\<close> literal is modelled by the calendar date it denotes, counted in days
  from 1970-01-01 (\<open>isodate\<close>): the time value of the \<open>Date\<close> parsed from it is that
  many days of milliseconds, and the literal printed from UTC fields that fall on that day
  is the same literal again. A date argument is an \<open>isodate option\<close>, \<open>None\<close> standing
  for a string that does not parse (an Invalid Date, or an error of \<open>parseDate\<close>). The
  second revision does not take the literal at its own date when its year is below 100
  (see \<open>parseDate\<close> below). The host's time zone is a parameter \<open>tz\<close>, its offset from UTC in minutes (east positive,
  held fixed: no daylight saving). Time values are exact rationals. The display fields
  \<open>dateFormatted\<close> and \<open>timeFormatted\<close> of a slot are renderings of \<open>date\<close> and
  \<open>time\<close> and are left out.
\<close>

type_synonym isodate = int

datatype date_error =
    InvalidStartDate
  | InvalidEndDate
  | EndBeforeStart
  | RangeTooSmall int int
  | CouldNotGenerate int int
  | InvalidFormatGenerated
  | InvalidYearGenerated
  | OutsideRange

definition msPerDay :: int where
  "msPerDay = 1000 * 60 * 60 * 24"

text \<open>\<open>new Date(dateStr).getTime()\<close> and \<open>parseDate(dateStr).getTime()\<close>: UTC midnight.\<close>

definition getTime :: "isodate \<Rightarrow> int" where
  "getTime d = d * msPerDay"

text \<open>\<open>new Date(t)\<close> keeps the integral part of a fractional time value.\<close>

definition TimeClip :: "rat \<Rightarrow> int" where
  "TimeClip t = (if 0 \<le> t then \<lfloor>t\<rfloor> else \<lceil>t\<rceil>)"

text \<open>The calendar day that the local-time getters read off a time value.\<close>

definition localDay :: "int \<Rightarrow> int \<Rightarrow> isodate" where
  "localDay tz t = (t + tz * 60000) div msPerDay"

text \<open>
  Year, month and day of a day number in the proleptic Gregorian calendar (what
  \<open>getUTCFullYear\<close>, \<open>getUTCMonth() + 1\<close> and \<open>getUTCDate\<close> return), by the usual
  era arithmetic on 400-year cycles that start on 1 March.
\<close>

definition civil :: "isodate \<Rightarrow> int \<times> int \<times> int" where
  "civil d =
     (let z = d + 719468;
          era = z div 146097;
          doe = z - era * 146097;
          yoe = (doe - doe div 1460 + doe div 36524 - doe div 146096) div 365;
          doy = doe - (365 * yoe + yoe div 4 - yoe div 100);
          mp = (5 * doy + 2) div 153;
          dd = doy - (153 * mp + 2) div 5 + 1;
          mm = (if mp < 10 then mp + 3 else mp - 9);
          yy = yoe + era * 400 + (if mm \<le> 2 then 1 else 0)
      in (yy, mm, dd))"

text \<open>
  The day number of a year, a month and a day of the month, the inverse of \<open>civil\<close> on
  calendar dates. It is linear in the day, as \<open>Date.UTC\<close> is: a day past the end of the
  month counts on into the next.
\<close>

definition days_from_civil :: "int \<Rightarrow> int \<Rightarrow> int \<Rightarrow> isodate" where
  "days_from_civil yy mm dd =
     (let y = yy - (if mm \<le> 2 then 1 else 0);
          era = y div 400;
          yoe = y - era * 400;
          doy = (153 * (mm + (if mm > 2 then - 3 else 9)) + 2) div 5 + dd - 1;
          doe = yoe * 365 + yoe div 4 - yoe div 100 + doy
      in era * 146097 + doe - 719468)"

definition digit_char :: "nat \<Rightarrow> char" where
  "digit_char n = ''0123456789'' ! n"

fun String_nat :: "nat \<Rightarrow> string" where
  "String_nat n =
     (if n < 10 then [digit_char n] else String_nat (n div 10) @ [digit_char (n mod 10)])"

declare String_nat.simps [simp del]

definition String_int :: "int \<Rightarrow> string" where
  "String_int i = (if i < 0 then CHR ''-'' # String_nat (nat (- i)) else String_nat (nat i))"

text \<open>\<open>s.padStart(2, '0')\<close>.\<close>

definition padStart2 :: "string \<Rightarrow> string" where
  "padStart2 s = replicate (2 - length s) CHR ''0'' @ s"

text \<open>The template literal \<open>`${year}-${month}-${day}`\<close> of \<open>generateRandomDate\<close>.\<close>

definition isoString :: "isodate \<Rightarrow> string" where
  "isoString d =
     (case civil d of (yy, mm, dd) \<Rightarrow>
        String_int yy @ ''-'' @ padStart2 (String_int mm) @ ''-'' @ padStart2 (String_int dd))"

subsection \<open>First revision: local-time getters\<close>

definition generateRandomDate ::
  "int \<Rightarrow> rat \<Rightarrow> isodate option \<Rightarrow> isodate option \<Rightarrow> date_error + isodate" where
  "generateRandomDate tz r startDate endDate =
     (case startDate of
        None \<Rightarrow> Inl InvalidStartDate
      | Some startDay \<Rightarrow>
         (case endDate of
            None \<Rightarrow> Inl InvalidEndDate
          | Some endDay \<Rightarrow>
             if getTime endDay < getTime startDay then Inl EndBeforeStart
             else
               (let startTimestamp = getTime startDay;
                    endTimestamp = getTime endDay;
                    randomTimestamp =
                      of_int startTimestamp + r * of_int (endTimestamp - startTimestamp);
                    randomDate = TimeClip randomTimestamp
                in Inr (localDay tz randomDate))))"

text \<open>
  \<open>generateRandomTime\<close> calls \<open>Math.random()\<close> twice: \<open>r1\<close> for the hour and \<open>r2\<close>
  for the minute.
\<close>

definition generateRandomTime :: "rat \<Rightarrow> rat \<Rightarrow> string" where
  "generateRandomTime r1 r2 =
     (let minHour = 6;
          maxHour = 22;
          hour = minHour + \<lfloor>r1 * of_int (maxHour - minHour)\<rfloor>;
          minute = \<lfloor>r2 * 60\<rfloor>;
          hourStr = padStart2 (String_int hour);
          minuteStr = padStart2 (String_int minute)
      in hourStr @ '':'' @ minuteStr)"

record slot =
  date :: isodate
  time :: string

fun isDateProperlySpaced :: "isodate \<Rightarrow> slot list \<Rightarrow> int \<Rightarrow> bool" where
  "isDateProperlySpaced newDate [] minDaysApart = True"
| "isDateProperlySpaced newDate (dateObj # existingDates) minDaysApart =
     (let newDateTime = getTime newDate;
          minMilliseconds = minDaysApart * 24 * 60 * 60 * 1000;
          existingDateTime = getTime (date dateObj);
          difference = \<bar>newDateTime - existingDateTime\<bar>
      in if difference < minMilliseconds then False
         else isDateProperlySpaced newDate existingDates minDaysApart)"

text \<open>
  The state of the \<open>while\<close> loop of \<open>generateUniqueDates\<close>: the array \<open>dates\<close>, the
  set \<open>usedDates\<close>, the counter \<open>attempts\<close>, and the number of \<open>Math.random()\<close> calls
  made so far.
\<close>

record sampling =
  dates :: "slot list"
  usedDates :: "isodate set"
  attempts :: nat
  calls :: nat

text \<open>
  The loop is the same text in both revisions; \<open>gen\<close> is the revision's
  \<open>generateRandomDate(startDate, endDate)\<close> as a function of its random draw. An error
  raised by \<open>gen\<close> leaves the loop.
\<close>

function sampling_loop ::
  "(rat \<Rightarrow> date_error + isodate) \<Rightarrow> (nat \<Rightarrow> rat) \<Rightarrow> int \<Rightarrow> int \<Rightarrow> sampling
     \<Rightarrow> date_error + sampling" where
  "sampling_loop gen random count minDaysApart st =
     (if int (length (dates st)) < count \<and> int (attempts st) < count * 100 then
        (case gen (random (calls st)) of
           Inl err \<Rightarrow> Inl err
         | Inr randomDate \<Rightarrow>
            if randomDate \<notin> usedDates st
               \<and> isDateProperlySpaced randomDate (dates st) minDaysApart
            then
              sampling_loop gen random count minDaysApart
                \<lparr>dates = dates st @
                   [\<lparr>date = randomDate,
                     time = generateRandomTime (random (calls st + 1)) (random (calls st + 2))\<rparr>],
                 usedDates = insert randomDate (usedDates st),
                 attempts = attempts st + 1,
                 calls = calls st + 3\<rparr>
            else
              sampling_loop gen random count minDaysApart
                (st\<lparr>attempts := attempts st + 1, calls := calls st + 1\<rparr>))
      else Inr st)"
  by pat_completeness auto
termination
  by (relation "measure (\<lambda>(gen, random, count, minDaysApart, st).
        nat (count * 100) - attempts st)") auto

declare sampling_loop.simps [simp del]

definition sampling_start :: sampling where
  "sampling_start = \<lparr>dates = [], usedDates = {}, attempts = 0, calls = 0\<rparr>"

text \<open>
  What follows the loop: the exhaustion check and the sort, a stable sort by the time
  value of the date.
\<close>

definition sampling_finish :: "int \<Rightarrow> date_error + sampling \<Rightarrow> date_error + slot list" where
  "sampling_finish count res =
     (case res of
        Inl err \<Rightarrow> Inl err
      | Inr st \<Rightarrow>
         if int (length (dates st)) < count then Inl (CouldNotGenerate count (count * 100))
         else Inr (sort_key (\<lambda>a. getTime (date a)) (dates st)))"

definition generateUniqueDates ::
  "int \<Rightarrow> (nat \<Rightarrow> rat) \<Rightarrow> int \<Rightarrow> isodate option \<Rightarrow> isodate option \<Rightarrow> int
     \<Rightarrow> date_error + slot list" where
  "generateUniqueDates tz random count startDate endDate minDaysApart =
     (case startDate of
        None \<Rightarrow> Inl InvalidStartDate
      | Some startDay \<Rightarrow>
         (case endDate of
            None \<Rightarrow> Inl InvalidEndDate
          | Some endDay \<Rightarrow>
             if getTime endDay < getTime startDay then Inl EndBeforeStart
             else
               (let totalDays = (getTime endDay - getTime startDay) div (1000 * 60 * 60 * 24);
                    minRequiredDays = (count - 1) * minDaysApart
                in if totalDays < minRequiredDays
                   then Inl (RangeTooSmall (minRequiredDays + 1) (totalDays + 1))
                   else sampling_finish count
                          (sampling_loop (\<lambda>r. generateRandomDate tz r startDate endDate)
                             random count minDaysApart sampling_start))))"

subsection \<open>Second revision: \<open>parseDate\<close> and UTC getters\<close>

text \<open>
  \<open>parseDate\<close> splits the literal at its hyphens, reads year, month and day with
  \<open>parseInt\<close> and builds the date with \<open>Date.UTC(year, month - 1, day)\<close>. \<open>Date.UTC\<close>
  takes a year from 0 to 99 as 1900 plus that year, so the literal \<open>"0050-01-01"\<close> is
  read as 1 January 1950; every other literal is read at its own date. The result is
  the day that \<open>parseDate(dateStr).getTime()\<close> is UTC midnight of.
\<close>

definition parseDate :: "isodate \<Rightarrow> isodate" where
  "parseDate d =
     (case civil d of (year, month, day) \<Rightarrow>
        if 0 \<le> year \<and> year \<le> 99 then days_from_civil (1900 + year) month day else d)"

text \<open>
  The result is the parsed start date moved by \<open>daysDiff\<close> days with \<open>setUTCDate\<close>.
  Three checks follow in the source: the printed literal matches \<open>^\d{4}-\d{2}-\d{2}$\<close>,
  which month and day always do and the year does when it has four digits; the year lies
  between 1900 and 2100; the result lies between start and end. A date that is returned
  has a year from 1900 to 2100, where \<open>parseDate\<close> reads a literal at its own date: the
  spacing test and the sort, which parse the generated literals again, are those of the
  first revision.
\<close>

definition generateRandomDate_utc ::
  "rat \<Rightarrow> isodate option \<Rightarrow> isodate option \<Rightarrow> date_error + isodate" where
  "generateRandomDate_utc r startDate endDate =
     (case startDate of
        None \<Rightarrow> Inl InvalidStartDate
      | Some startDay \<Rightarrow>
         (case endDate of
            None \<Rightarrow> Inl InvalidEndDate
          | Some endDay \<Rightarrow>
             (let start = parseDate startDay;
                  end' = parseDate endDay
              in if getTime end' < getTime start then Inl EndBeforeStart
                 else
                   (let startTimestamp = getTime start;
                        endTimestamp = getTime end';
                        randomTimestamp =
                          of_int startTimestamp + r * of_int (endTimestamp - startTimestamp);
                        daysDiff =
                          \<lfloor>(randomTimestamp - of_int startTimestamp)
                            / of_int (1000 * 60 * 60 * 24)\<rfloor>;
                        resultDate = start + daysDiff;
                        year = fst (civil resultDate);
                        resultTimestamp = getTime resultDate
                    in if year < 1000 \<or> 9999 < year then Inl InvalidFormatGenerated
                       else if year < 1900 \<or> year > 2100 then Inl InvalidYearGenerated
                       else if resultTimestamp < startTimestamp
                               \<or> resultTimestamp > endTimestamp
                       then Inl OutsideRange
                       else Inr resultDate))))"

definition generateUniqueDates_utc ::
  "(nat \<Rightarrow> rat) \<Rightarrow> int \<Rightarrow> isodate option \<Rightarrow> isodate option \<Rightarrow> int
     \<Rightarrow> date_error + slot list" where
  "generateUniqueDates_utc random count startDate endDate minDaysApart =
     (case startDate of
        None \<Rightarrow> Inl InvalidStartDate
      | Some startDay \<Rightarrow>
         (case endDate of
            None \<Rightarrow> Inl InvalidEndDate
          | Some endDay \<Rightarrow>
             (let start = parseDate startDay;
                  end' = parseDate endDay
              in if getTime end' < getTime start then Inl EndBeforeStart
                 else
                   (let totalDays = (getTime end' - getTime start) div (1000 * 60 * 60 * 24);
                        minRequiredDays = (count - 1) * minDaysApart
                    in if totalDays < minRequiredDays
                       then Inl (RangeTooSmall (minRequiredDays + 1) (totalDays + 1))
                       else sampling_finish count
                              (sampling_loop (\<lambda>r. generateRandomDate_utc r startDate endDate)
                                 random count minDaysApart sampling_start)))))"

subsection \<open>What a schedule has to satisfy\<close>

definition hhmm :: "int \<Rightarrow> int \<Rightarrow> string" where
  "hhmm h mi = padStart2 (String_int h) @ '':'' @ padStart2 (String_int mi)"

text \<open>The times of day from 06:00 up to, and not including, 22:00.\<close>

definition business_window :: "string set" where
  "business_window = (\<lambda>(h, mi). hhmm h mi) ` ({6..<22} \<times> {0..<60})"

text \<open>
  The slots lie on distinct dates within \<open>[startDay, endDay]\<close>, any two dates are at
  least \<open>minDaysApart\<close> days apart, and every time lies in the business window.
\<close>

definition schedule_ok :: "isodate \<Rightarrow> isodate \<Rightarrow> int \<Rightarrow> slot list \<Rightarrow> bool" where
  "schedule_ok startDay endDay minDaysApart ds =
     (distinct (map date ds)
      \<and> list_all (\<lambda>a. startDay \<le> date a \<and> date a \<le> endDay \<and> time a \<in> business_window) ds
      \<and> list_all (\<lambda>a. list_all (\<lambda>b. date a = date b \<or> minDaysApart \<le> \<bar>date a - date b\<bar>) ds) ds)"

text \<open>The invariant of the sampling loop.\<close>

definition sampling_inv :: "isodate \<Rightarrow> isodate \<Rightarrow> int \<Rightarrow> int \<Rightarrow> sampling \<Rightarrow> bool" where
  "sampling_inv s e m count st \<longleftrightarrow>
     schedule_ok s e m (dates st) \<and> usedDates st = date ` set (dates st)
     \<and> int (length (dates st)) \<le> count"


section \<open>Validator (utils/validator.js)\<close>

text \<open>
  The fields of a request are the values that \<open>JSON.parse\<close> produces, as the HTTP layer
  (\<open>bodyParser.json()\<close>) hands them over: \<open>null\<close>, a boolean, a finite number
  (\<open>Num\<close>), an infinity (\<open>NumInf\<close>, positive when its argument is true: what a
  literal beyond the range of a double such as \<open>1e400\<close> is read as), a string, an array
  of values (\<open>Arr\<close>), an object (\<open>Obj\<close>, the list of its own properties in the order
  of the text), and \<open>Undefined\<close> for a property that is absent. The argument \<open>data\<close>
  itself is an object, the \<open>req.body\<close> of the server.

  A string is the list of its UTF-16 code units, written as integers; \<open>units\<close> turns an
  ASCII literal into one. The results of \<open>parseInt\<close> and \<open>parseFloat\<close> are JavaScript
  numbers with their three special values (\<open>jsnum\<close>). A conversion that fails raises
  \<open>TypeError\<close>, the one exception the validator can meet.
\<close>

type_synonym jsstring = "int list"

definition units :: "string \<Rightarrow> jsstring" where
  "units s = map of_char s"

datatype jsval =
    Undefined
  | Null
  | Bool bool
  | Num rat
  | NumInf bool
  | Str jsstring
  | Arr "jsval list"
  | Obj "(jsstring \<times> jsval) list"

datatype jsnum = NaN | NegInf | Fin rat | PosInf

datatype js_error = TypeError


fun isNaN :: "jsnum \<Rightarrow> bool" where
  "isNaN NaN = True"
| "isNaN _ = False"

text \<open>\<open>a < b\<close> and \<open>a <= b\<close> on numbers: false as soon as one side is \<open>NaN\<close>.\<close>

fun jsnum_less :: "jsnum \<Rightarrow> jsnum \<Rightarrow> bool" where
  "jsnum_less NaN _ = False"
| "jsnum_less _ NaN = False"
| "jsnum_less (Fin a) (Fin b) = (a < b)"
| "jsnum_less NegInf b = (b \<noteq> NegInf)"
| "jsnum_less a PosInf = (a \<noteq> PosInf)"
| "jsnum_less _ _ = False"


text \<open>\<open>a !== b\<close> on numbers: \<open>NaN\<close> differs from everything, itself included.\<close>

definition jsnum_neq :: "jsnum \<Rightarrow> jsnum \<Rightarrow> bool" where
  "jsnum_neq a b = (isNaN a \<or> isNaN b \<or> a \<noteq> b)"

text \<open>
  The Number value for a rational \<open>x\<close>: the double nearest to it, ties to even, over the
  whole range of the format. Below \<open>2\<^sup>-\<^sup>1\<^sup>0\<^sup>2\<^sup>2\<close> the doubles are the multiples of
  \<open>2\<^sup>-\<^sup>1\<^sup>0\<^sup>7\<^sup>4\<close> (subnormal numbers, and 0 when \<open>x\<close> is nearer to it); a result of
  \<open>2\<^sup>1\<^sup>0\<^sup>2\<^sup>4\<close> in magnitude is an overflow to the infinity of that sign. The two zeros
  are not told apart: no operation of the validator distinguishes them.
\<close>

definition Number_value :: "rat \<Rightarrow> jsnum" where
  "Number_value x =
     (if x = 0 then Fin 0
      else let e = max (ilog2 \<bar>x\<bar>) (- 1022) - 52;
               y = of_int (roundTiesToEven (x / pow2 e)) * pow2 e
           in if y = 0 then Fin 0
              else if 1024 \<le> ilog2 \<bar>y\<bar> then (if 0 < x then PosInf else NegInf)
              else Fin y)"


subsection \<open>\<open>String.prototype.trim\<close>, \<open>parseInt\<close> and \<open>parseFloat\<close> on strings\<close>

text \<open>
  White space and line terminators, which \<open>trim\<close>, \<open>parseInt\<close> and \<open>parseFloat\<close>
  strip: tab, line feed, vertical tab, form feed, return, space, U+00A0, U+1680, U+2000
  to U+200A, U+2028, U+2029, U+202F, U+205F, U+3000 and U+FEFF.
\<close>

definition is_space :: "int \<Rightarrow> bool" where
  "is_space c =
     (c \<in> set [0x09, 0x0A, 0x0B, 0x0C, 0x0D, 0x20, 0xA0, 0x1680, 0x2028, 0x2029, 0x202F,
                0x205F, 0x3000, 0xFEFF]
      \<or> (0x2000 \<le> c \<and> c \<le> 0x200A))"

definition trimStart :: "jsstring \<Rightarrow> jsstring" where
  "trimStart s = dropWhile is_space s"


text \<open>The value of a digit in a radix of 10 or 16, if the code unit is one.\<close>

definition digit_val :: "int \<Rightarrow> int \<Rightarrow> int option" where
  "digit_val radix c =
     (if 48 \<le> c \<and> c \<le> 57 then Some (c - 48)
      else if radix = 16 \<and> 97 \<le> c \<and> c \<le> 102 then Some (c - 87)
      else if radix = 16 \<and> 65 \<le> c \<and> c \<le> 70 then Some (c - 55)
      else None)"

definition is_digit :: "int \<Rightarrow> int \<Rightarrow> bool" where
  "is_digit radix c = (digit_val radix c \<noteq> None)"

definition digits_value :: "int \<Rightarrow> jsstring \<Rightarrow> int" where
  "digits_value radix ds = foldl (\<lambda>acc c. acc * radix + the (digit_val radix c)) 0 ds"

text \<open>An optional sign in front: whether it is a minus, and the rest.\<close>

fun split_sign :: "jsstring \<Rightarrow> bool \<times> jsstring" where
  "split_sign [] = (False, [])"
| "split_sign (c # cs) =
     (if [c] = units ''-'' then (True, cs) else if [c] = units ''+'' then (False, cs)
      else (False, c # cs))"

text \<open>
  \<open>parseInt(string)\<close> with no radix: leading white space, a sign, a prefix \<open>0x\<close> for
  radix 16, then the longest run of digits; \<open>NaN\<close> when there is none. The integer read
  is rounded to a double.
\<close>

definition parseInt_string :: "jsstring \<Rightarrow> jsnum" where
  "parseInt_string s =
     (case split_sign (trimStart s) of (neg, s2) \<Rightarrow>
        (let hex = (take 2 s2 = units ''0x'' \<or> take 2 s2 = units ''0X'');
             radix = (if hex then 16 else 10);
             ds = takeWhile (is_digit radix) (if hex then drop 2 s2 else s2)
         in if ds = [] then NaN
            else Number_value ((if neg then - 1 else 1) * of_int (digits_value radix ds))))"

text \<open>
  \<open>parseFloat(string)\<close>: leading white space, a sign, then \<open>Infinity\<close> or the longest
  decimal literal: digits, an optional fraction, an optional exponent (read only when a
  digit follows the \<open>e\<close> and its sign). \<open>NaN\<close> when there is no digit before the exponent.
  The decimal read is rounded to a double.
\<close>

definition exponent_part :: "jsstring \<Rightarrow> int" where
  "exponent_part s =
     (case s of
        [] \<Rightarrow> 0
      | c # cs \<Rightarrow>
         if [c] = units ''e'' \<or> [c] = units ''E'' then
           (case split_sign cs of (neg, s2) \<Rightarrow>
              (let ds = takeWhile (is_digit 10) s2
               in if ds = [] then 0
                  else (if neg then - 1 else 1) * digits_value 10 ds))
         else 0)"

definition pow10 :: "int \<Rightarrow> rat" where
  "pow10 e = (if 0 \<le> e then 10 ^ nat e else 1 / 10 ^ nat (- e))"

definition parseFloat_string :: "jsstring \<Rightarrow> jsnum" where
  "parseFloat_string s =
     (case split_sign (trimStart s) of (neg, s2) \<Rightarrow>
        if take 8 s2 = units ''Infinity'' then (if neg then NegInf else PosInf)
        else
          (let ip = takeWhile (is_digit 10) s2;
               s3 = drop (length ip) s2;
               frac = (case s3 of
                         [] \<Rightarrow> []
                       | c # cs \<Rightarrow> if [c] = units ''.'' then takeWhile (is_digit 10) cs else []);
               s4 = (case s3 of
                       [] \<Rightarrow> []
                     | c # cs \<Rightarrow> if [c] = units ''.'' then drop (length frac) cs else s3)
           in if ip = [] \<and> frac = [] then NaN
              else Number_value
                     ((if neg then - 1 else 1)
                      * (of_int (digits_value 10 ip)
                         + of_int (digits_value 10 frac) / 10 ^ length frac)
                      * pow10 (exponent_part s4))))"

subsection \<open>Conversion to a string\<close>

text \<open>
  \<open>Number::toString\<close>. The digits are those of the shortest decimal that reads back as
  the number: with \<open>10\<^sup>n\<^sup>-\<^sup>1 \<le> v < 10\<^sup>n\<close>, the least \<open>k\<close> for which a \<open>k\<close>-digit integer
  \<open>s\<close> has \<open>s * 10\<^sup>n\<^sup>-\<^sup>k\<close> round to the same double as \<open>v\<close>, and of the two candidates
  \<open>\<lfloor>v / 10\<^sup>n\<^sup>-\<^sup>k\<rfloor>\<close> and the next integer the one nearer to \<open>v\<close> (the even one on a tie). A double has such a decimal
  of at most 17 digits. When the digits round up to \<open>10\<^sup>k\<close> they are those of \<open>10\<^sup>k\<^sup>-\<^sup>1\<close>
  one decimal place higher.
\<close>

function digits_int :: "int \<Rightarrow> nat" where
  "digits_int k = (if k < 10 then 1 else Suc (digits_int (k div 10)))"
  by pat_completeness auto
termination
  by (relation "measure nat") auto

declare digits_int.simps [simp del]

text \<open>The integer \<open>e\<close> with \<open>10\<^sup>e \<le> a < 10\<^sup>e\<^sup>+\<^sup>1\<close>, for a positive rational.\<close>

definition ilog10 :: "rat \<Rightarrow> int" where
  "ilog10 a =
     (if 1 \<le> a then int (digits_int \<lfloor>a\<rfloor>) - 1 else - int (digits_int (\<lceil>1 / a\<rceil> - 1)))"

function decimal_digits :: "int \<Rightarrow> jsstring" where
  "decimal_digits k =
     (if k < 10 then [48 + k] else decimal_digits (k div 10) @ [48 + k mod 10])"
  by pat_completeness auto
termination
  by (relation "measure nat") auto

declare decimal_digits.simps [simp del]

function shortest_digits :: "rat \<Rightarrow> int \<Rightarrow> nat \<Rightarrow> int \<times> int" where
  "shortest_digits v n k =
     (let scale = pow10 (n - int k);
          lo = \<lfloor>v / scale\<rfloor>;
          hi = lo + 1;
          lo_reads = (Number_value (of_int lo * scale) = Number_value v);
          hi_reads = (Number_value (of_int hi * scale) = Number_value v)
      in if lo_reads \<or> hi_reads \<or> 17 \<le> k then
           (let dl = v - of_int lo * scale;
                dh = of_int hi * scale - v;
                s = (if lo_reads \<and> hi_reads
                     then (if dl < dh then lo else if dh < dl then hi
                           else if even lo then lo else hi)
                     else if hi_reads then hi else lo)
            in if s = 10 ^ k then (10 ^ (k - 1), n + 1) else (s, n))
         else shortest_digits v n (Suc k))"
  by pat_completeness auto
termination
  by (relation "measure (\<lambda>(v, n, k). 17 - k)") auto

declare shortest_digits.simps [simp del]

text \<open>
  The digits \<open>ds\<close> with the decimal point after the \<open>n\<close>-th: in plain notation for
  \<open>-6 < n \<le> 21\<close>, in exponent notation beyond.
\<close>

definition Number_toString :: "rat \<Rightarrow> jsstring" where
  "Number_toString x =
     (if x = 0 then units ''0''
      else
        (case shortest_digits \<bar>x\<bar> (ilog10 \<bar>x\<bar> + 1) 1 of (s, n) \<Rightarrow>
           (let ds = decimal_digits s;
                k = int (length ds);
                body =
                  (if k \<le> n \<and> n \<le> 21 then ds @ replicate (nat (n - k)) 48
                   else if 0 < n \<and> n \<le> 21
                   then take (nat n) ds @ units ''.'' @ drop (nat n) ds
                   else if - 6 < n \<and> n \<le> 0
                   then units ''0.'' @ replicate (nat (- n)) 48 @ ds
                   else take 1 ds @ (if k = 1 then [] else units ''.'' @ drop 1 ds)
                        @ units (if 0 \<le> n - 1 then ''e+'' else ''e-'')
                        @ decimal_digits \<bar>n - 1\<bar>)
            in if x < 0 then units ''-'' @ body else body)))"

text \<open>
  \<open>ToString\<close>, the conversion that \<open>parseInt\<close>, \<open>parseFloat\<close> and \<open>new Date\<close> apply to
  an argument that is not a string.
  \<^item> An array is converted by \<open>Array.prototype.join\<close>: its elements converted in turn and
    separated by commas, \<open>null\<close> and \<open>undefined\<close> giving the empty string.
  \<^item> An object made by \<open>JSON.parse\<close> inherits \<open>toString\<close> and \<open>valueOf\<close> from
    \<open>Object.prototype\<close> and converts to \<open>"[object Object]"\<close>, unless it has an own
    property named \<open>toString\<close>: that property hides the inherited method, its value is
    never a function, the inherited \<open>valueOf\<close> returns the object itself and an own
    \<open>valueOf\<close> is no function either, so no primitive is found and the conversion
    raises \<open>TypeError\<close>. Conversion with the hint "number", as \<open>new Date\<close> does it, tries
    the same two methods in the other order, with the same result.
\<close>

fun ToString :: "jsval \<Rightarrow> js_error + jsstring"
  and Array_join :: "jsval list \<Rightarrow> js_error + jsstring" where
  "ToString Undefined = Inr (units ''undefined'')"
| "ToString Null = Inr (units ''null'')"
| "ToString (Bool b) = Inr (units (if b then ''true'' else ''false''))"
| "ToString (Num n) = Inr (Number_toString n)"
| "ToString (NumInf positive) = Inr (units (if positive then ''Infinity'' else ''-Infinity''))"
| "ToString (Str s) = Inr s"
| "ToString (Arr elements) = Array_join elements"
| "ToString (Obj properties) =
     (if units ''toString'' \<in> set (map fst properties) then Inl TypeError
      else Inr (units ''[object Object]''))"
| "Array_join [] = Inr []"
| "Array_join (element # others) =
     (case (if element = Undefined \<or> element = Null then Inr [] else ToString element) of
        Inl err \<Rightarrow> Inl err
      | Inr piece \<Rightarrow>
         (case Array_join others of
            Inl err \<Rightarrow> Inl err
          | Inr tail \<Rightarrow> Inr (if others = [] then piece else piece @ units '','' @ tail)))"

subsection \<open>\<open>parseInt\<close> and \<open>parseFloat\<close> on any value\<close>

text \<open>
  Both functions convert their argument to a string and read that. On a number
  \<open>parseFloat\<close> gets the number back, since its string is a decimal that reads back as
  it. \<open>parseInt\<close> gets its integral part while the string is in plain notation, which is
  for 0 and for magnitudes from \<open>10\<^sup>-\<^sup>6\<close> up to \<open>10\<^sup>2\<^sup>1\<close>: there the digits before the
  decimal point are those of the integral part. Beyond, the string is in exponent notation
  (\<open>1.5e+21\<close>, \<open>5e-7\<close>) and \<open>parseInt\<close> stops after its first digit.
\<close>

definition parseInt_number :: "rat \<Rightarrow> jsnum" where
  "parseInt_number n =
     (if n = 0 \<or> (1 / 10 ^ 6 \<le> \<bar>n\<bar> \<and> \<bar>n\<bar> < 10 ^ 21)
      then Fin (of_int (if 0 \<le> n then \<lfloor>n\<rfloor> else \<lceil>n\<rceil>))
      else parseInt_string (Number_toString n))"

definition parseInt :: "jsval \<Rightarrow> js_error + jsnum" where
  "parseInt x =
     (case x of
        Num n \<Rightarrow> Inr (parseInt_number n)
      | _ \<Rightarrow> (case ToString x of Inl err \<Rightarrow> Inl err | Inr s \<Rightarrow> Inr (parseInt_string s)))"

definition parseFloat :: "jsval \<Rightarrow> js_error + jsnum" where
  "parseFloat x =
     (case x of
        Num n \<Rightarrow> Inr (Fin n)
      | _ \<Rightarrow> (case ToString x of Inl err \<Rightarrow> Inl err | Inr s \<Rightarrow> Inr (parseFloat_string s)))"

subsection \<open>The validators\<close>

text \<open>
  A message is the text the source returns, or the one template of
  \<open>validateDistributionPossible\<close>, kept with the numbers \<open>max\<close>, \<open>count\<close> and \<open>total\<close>
  that it prints. A validator returns a message, or \<open>None\<close> for \<open>null\<close>, or raises.
\<close>

datatype message = Text string | DistributionImpossible jsnum jsnum jsnum


text \<open>The test \<open>x === undefined || x === null || x === ''\<close>.\<close>

definition is_missing :: "jsval \<Rightarrow> bool" where
  "is_missing x = (x = Undefined \<or> x = Null \<or> x = Str [])"




definition validateNumberOfBills :: "jsval \<Rightarrow> js_error + message option" where
  "validateNumberOfBills numberOfBills =
     (if is_missing numberOfBills then Inr (Some (Text ''Number of Bills is required''))
      else
        (case parseInt numberOfBills of
           Inl err \<Rightarrow> Inl err
         | Inr num \<Rightarrow>
            if isNaN num then Inr (Some (Text ''Number of Bills must be a valid integer''))
            else if jsnum_less num (Fin 1)
            then Inr (Some (Text ''Number of Bills must be at least 1''))
            else
              (case parseFloat numberOfBills of
                 Inl err \<Rightarrow> Inl err
               | Inr parsed \<Rightarrow>
                  if jsnum_neq num parsed
                  then Inr (Some (Text ''Number of Bills must be a whole number''))
                  else Inr None)))"





record bill_request =
  stationName :: jsval
  fuelRate :: jsval
  template :: jsval
  totalAmount :: jsval
  numberOfBills :: jsval
  maxAmountPerBill :: jsval
  startDate :: jsval
  endDate :: jsval





subsection \<open>What the validator is to return\<close>

text \<open>
  A field converts when \<open>ToString\<close> does not raise on it. Every string, number and
  boolean, \<open>null\<close> and an absent field convert; an object converts unless it has an own
  property named \<open>toString\<close>; an array converts when its elements do. The station name
  is never converted and needs no such condition.
\<close>

definition converts :: "jsval \<Rightarrow> bool" where
  "converts x = (ToString x \<noteq> Inl TypeError)"








section \<open>PDF merger (utils/pdfMerger.js)\<close>

text \<open>
  A document is the list of its pages, of any type \<open>'p\<close>. The library pdf-lib is two
  parameters: \<open>load\<close> parses the bytes of a file into a document, or fails, and \<open>save\<close>
  serialises a document. The file system holds the contents of the files and the names in
  each directory as \<open>readdirSync\<close> lists them; \<open>writeFileSync\<close> succeeds.
  \<open>PDFDocument.create()\<close> is the empty list, \<open>copyPages(pdf, pdf.getPageIndices())\<close>
  followed by \<open>addPage\<close> on each copy appends the pages of \<open>pdf\<close> in their order.
\<close>

type_synonym path = string
type_synonym bytes = string

record filesystem =
  contents :: "path \<Rightarrow> bytes option"
  readdir :: "path \<Rightarrow> string list option"

datatype merge_cause = ReadFailed path | LoadFailed path

datatype merge_error =
    FailedToMerge merge_cause
  | NoPDFFilesFound string
  | ReaddirFailed path

text \<open>The \<open>for\<close> loop of \<open>mergePDFs\<close> over \<open>pdfPaths\<close>, \<open>mergedPdf\<close> passed along.\<close>

fun merge_loop ::
  "(bytes \<Rightarrow> 'p list option) \<Rightarrow> filesystem \<Rightarrow> path list \<Rightarrow> 'p list \<Rightarrow> merge_cause + 'p list" where
  "merge_loop load fs [] mergedPdf = Inr mergedPdf"
| "merge_loop load fs (pdfPath # rest) mergedPdf =
     (case contents fs pdfPath of
        None \<Rightarrow> Inl (ReadFailed pdfPath)
      | Some pdfBytes \<Rightarrow>
         (case load pdfBytes of
            None \<Rightarrow> Inl (LoadFailed pdfPath)
          | Some pdf \<Rightarrow> merge_loop load fs rest (mergedPdf @ pdf)))"

text \<open>
  \<open>mergePDFs\<close> returns \<open>outputPath\<close> and leaves the merged file behind; any error of the
  loop is caught and raised again as "Failed to merge PDFs".
\<close>

definition mergePDFs ::
  "(bytes \<Rightarrow> 'p list option) \<Rightarrow> ('p list \<Rightarrow> bytes) \<Rightarrow> filesystem \<Rightarrow> path list \<Rightarrow> path
     \<Rightarrow> merge_error + filesystem \<times> path" where
  "mergePDFs load save fs pdfPaths outputPath =
     (case merge_loop load fs pdfPaths [] of
        Inl cause \<Rightarrow> Inl (FailedToMerge cause)
      | Inr mergedPdf \<Rightarrow>
         (let mergedPdfBytes = save mergedPdf
          in Inr (fs\<lparr>contents := (contents fs)(outputPath \<mapsto> mergedPdfBytes)\<rparr>, outputPath)))"

text \<open>\<open>s.includes(pattern)\<close>, \<open>s.endsWith(suffix)\<close> and \<open>path.join(dir, name)\<close>.\<close>

fun String_includes :: "string \<Rightarrow> string \<Rightarrow> bool" where
  "String_includes [] pattern = (pattern = [])"
| "String_includes (c # cs) pattern =
     (take (length pattern) (c # cs) = pattern \<or> String_includes cs pattern)"

definition endsWith :: "string \<Rightarrow> string \<Rightarrow> bool" where
  "endsWith s suffix =
     (length suffix \<le> length s \<and> drop (length s - length suffix) s = suffix)"

definition path_join :: "path \<Rightarrow> string \<Rightarrow> path" where
  "path_join directory file = directory @ ''/'' @ file"

definition mergePDFsInDirectory ::
  "(bytes \<Rightarrow> 'p list option) \<Rightarrow> ('p list \<Rightarrow> bytes) \<Rightarrow> filesystem \<Rightarrow> path \<Rightarrow> string \<Rightarrow> string
     \<Rightarrow> merge_error + filesystem \<times> path" where
  "mergePDFsInDirectory load save fs directory pattern outputFileName =
     (case readdir fs directory of
        None \<Rightarrow> Inl (ReaddirFailed directory)
      | Some names \<Rightarrow>
         (let files = sort (filter (\<lambda>file. String_includes file pattern \<and> endsWith file ''.pdf'') names)
          in if length files = 0 then Inl (NoPDFFilesFound pattern)
             else
               (let pdfPaths = map (\<lambda>file. path_join directory file) files;
                    outputPath = path_join directory outputFileName
                in mergePDFs load save fs pdfPaths outputPath)))"

text \<open>What a call that returned left in the file at the path it returned.\<close>

definition output_of ::
  "merge_error + filesystem \<times> path \<Rightarrow> merge_error + bytes option \<times> path" where
  "output_of res = map_sum id (\<lambda>(fs, p). (contents fs p, p)) res"

text \<open>A path whose file is there and loads as the document \<open>pdf\<close>.\<close>

definition loads_as :: "(bytes \<Rightarrow> 'p list option) \<Rightarrow> filesystem \<Rightarrow> path \<Rightarrow> 'p list \<Rightarrow> bool" where
  "loads_as load fs pdfPath pdf = (Option.bind (contents fs pdfPath) load = Some pdf)"

text \<open>
  A stand-in for pdf-lib on concrete files: a file is the header \<^verbatim>\<open>%PDF\<close> followed by
  its pages, one character each.
\<close>

definition toy_load :: "bytes \<Rightarrow> char list option" where
  "toy_load b = (if take 4 b = ''%PDF'' then Some (drop 4 b) else None)"

definition toy_save :: "char list \<Rightarrow> bytes" where
  "toy_save pages = ''%PDF'' @ pages"

definition toy_fs :: filesystem where
  "toy_fs =
     \<lparr>contents = [''d/fuel-bill-1.pdf'' \<mapsto> ''%PDFab'', ''d/fuel-bill-2.pdf'' \<mapsto> ''%PDFc'',
                  ''d/fuel-bill-3.pdf'' \<mapsto> ''%PDFde'', ''d/notes.txt'' \<mapsto> ''hello''],
      readdir = [''d'' \<mapsto> [''notes.txt'', ''fuel-bill-3.pdf'', ''fuel-bill-1.pdf'',
                             ''fuel-bill-2.pdf''],
                 ''empty'' \<mapsto> []]\<rparr>"


section \<open>Amount distributor: proofs\<close>

subsection \<open>Ideal arithmetic on whole minor units\<close>

lemma round2_exact: "round2 exact x = of_int \<lfloor>x * 100 + 1 / 2\<rfloor> / 100"
  by (simp add: round2_def exact_def Math_round_def)

lemma round2_exact_cents: "round2 exact (of_int c / 100) = of_int c / 100"
proof -
  have "\<lfloor>(of_int c :: rat) + 1 / 2\<rfloor> = c" by linarith
  then show ?thesis by (simp add: round2_exact)
qed

lemma draw_between:
  fixes r :: rat and L H :: int
  assumes "0 \<le> r" "r < 1" "L \<le> H"
  shows "L \<le> \<lfloor>of_int L + r * (of_int H - of_int L) + 1 / 2\<rfloor>"
    and "\<lfloor>of_int L + r * (of_int H - of_int L) + 1 / 2\<rfloor> \<le> H"
proof -
  have d: "(0::rat) \<le> of_int H - of_int L" using assms by simp
  have lo: "0 \<le> r * (of_int H - of_int L)" using assms d by simp
  have hi: "r * (of_int H - of_int L) \<le> of_int H - of_int L"
    using assms d by (simp add: mult_left_le_one_le)
  show "L \<le> \<lfloor>of_int L + r * (of_int H - of_int L) + 1 / 2\<rfloor>"
    using lo by linarith
  show "\<lfloor>of_int L + r * (of_int H - of_int L) + 1 / 2\<rfloor> \<le> H"
    using hi by linarith
qed

lemma max_cents: "max (of_int a / 100) (of_int b / 100) = (of_int (max a b) :: rat) / 100"
  by (simp add: max_def)

lemma min_cents: "min (of_int a / 100) (of_int b / 100) = (of_int (min a b) :: rat) / 100"
  by (simp add: min_def)

lemma check_amounts_None:
  "check_amounts mx i as = None \<longleftrightarrow> (\<forall>a\<in>set as. 0 < a \<and> a \<le> mx)"
  by (induction as arbitrary: i) (auto simp: not_le)

lemma foldl_exact_sum: "foldl (\<lambda>acc val. exact (acc + val)) s as = s + sum_list as"
  by (induction as arbitrary: s) (simp_all add: exact_def add.assoc)

lemma sum_list_cents:
  "sum_list (map (\<lambda>c. (of_int c :: rat) / 100) cs) = of_int (sum_list cs) / 100"
  by (induction cs) (simp_all add: add_divide_distrib)

lemma distribute_loop_cents:
  assumes draws: "unit_draws random" and M: "1 \<le> M"
  shows "i < n \<Longrightarrow> int (n - i) \<le> R \<Longrightarrow> R \<le> int (n - i) * M \<Longrightarrow>
    \<exists>cs. distribute_loop exact random n (of_int M / 100) i (of_int R / 100)
            = map (\<lambda>c. of_int c / 100) cs
        \<and> length cs = n - i \<and> (\<forall>c\<in>set cs. 1 \<le> c \<and> c \<le> M) \<and> sum_list cs = R"
proof (induction "n - i" arbitrary: i R)
  case 0
  then show ?case by simp
next
  case (Suc k)
  show ?case
  proof (cases "i + 1 < n")
    case False
    with Suc.prems have ni: "n - i = 1" by simp
    have "distribute_loop exact random n (of_int M / 100) i (of_int R / 100)
          = [of_int R / 100]"
      using False by (simp add: distribute_loop.simps round2_exact_cents)
    then show ?thesis using Suc.prems ni
      by (intro exI[of _ "[R]"]) simp
  next
    case True
    define b where "b = int (n - i - 1)"
    define L where "L = max 1 (R - b * M)"
    define H where "H = min M (R - b)"
    have b1: "1 \<le> b" and nb: "int (n - i) = b + 1" using True by (simp_all add: b_def)
    define bM where "bM = b * M"
    have bbM: "b \<le> bM" using b1 M by (simp add: bM_def mult_le_cancel_left1)
    have RbM: "R \<le> bM + M" using Suc.prems(3) by (simp add: nb bM_def algebra_simps)
    have Rb: "b + 1 \<le> R" using Suc.prems(2) by (simp add: nb)
    have L: "L = max 1 (R - bM)" by (simp add: L_def bM_def)
    have LH: "L \<le> H" unfolding L H_def using bbM RbM Rb M by linarith
    define c where
      "c = \<lfloor>of_int L + random i * (of_int H - of_int L) + (1 :: rat) / 2\<rfloor>"
    have r: "0 \<le> random i" "random i < 1" using draws by (simp_all add: unit_draws_def)
    have cL: "L \<le> c" and cH: "c \<le> H"
      unfolding c_def using draw_between[OF r LH] by simp_all
    have maxFor: "min (of_int M / 100)
            (exact (of_int R / 100 - exact (of_nat (n - i - 1) * minAmountPerBill exact)))
          = (of_int H :: rat) / 100"
    proof -
      have "exact (of_int R / 100 - exact (of_nat (n - i - 1) * minAmountPerBill exact))
            = (of_int (R - b) :: rat) / 100"
        by (simp add: exact_def minAmountPerBill_def b_def diff_divide_distrib)
      then show ?thesis by (simp add: H_def min_cents)
    qed
    have minFor: "max (minAmountPerBill exact)
            (exact (of_int R / 100 - exact (of_nat (n - i - 1) * (of_int M / 100))))
          = (of_int L :: rat) / 100"
    proof -
      have "exact (of_int R / 100 - exact (of_nat (n - i - 1) * (of_int M / 100)))
            = (of_int (R - b * M) :: rat) / 100"
        by (simp add: exact_def b_def diff_divide_distrib)
      moreover have "minAmountPerBill exact = (of_int 1 :: rat) / 100"
        by (simp add: exact_def minAmountPerBill_def)
      ultimately show ?thesis unfolding L_def by (simp only: max_cents)
    qed
    have amt: "round2 exact (exact (of_int L / 100
         + exact (random i * exact (of_int H / 100 - of_int L / 100)))) = of_int c / 100"
      by (simp add: round2_exact exact_def c_def algebra_simps)
    have unfold: "distribute_loop exact random n (of_int M / 100) i (of_int R / 100)
          = of_int c / 100
            # distribute_loop exact random n (of_int M / 100) (Suc i) (of_int (R - c) / 100)"
      by (subst distribute_loop.simps)
         (simp only: if_P[OF True] Let_def maxFor minFor amt,
          simp add: exact_def diff_divide_distrib)
    have k: "k = n - Suc i" using Suc.hyps(2) by simp
    have "b \<le> R - c" using cH unfolding H_def by linarith
    then have lo': "int (n - Suc i) \<le> R - c" by (simp add: b_def)
    have "R - c \<le> bM" using cL unfolding L by linarith
    then have hi': "R - c \<le> int (n - Suc i) * M" by (simp add: b_def bM_def)
    from Suc.hyps(1)[OF k _ lo' hi'] True
    obtain cs where cs: "distribute_loop exact random n (of_int M / 100) (Suc i)
            (of_int (R - c) / 100) = map (\<lambda>c. of_int c / 100) cs"
        "length cs = n - Suc i" "\<forall>c\<in>set cs. 1 \<le> c \<and> c \<le> M" "sum_list cs = R - c"
      by auto
    have c1: "1 \<le> c" using cL unfolding L_def by simp
    have cM: "c \<le> M" using cH unfolding H_def by simp
    show ?thesis
      using cs unfold c1 cM True
      by (intro exI[of _ "c # cs"]) auto
  qed
qed

text \<open>
  In ideal decimal arithmetic, which is not the arithmetic of the engine, the distributor
  does what its documentation says. Let the total \<open>totalAmt\<close> and the maximum
  \<open>maxPerBill\<close> be whole numbers of minor units (two decimals), \<open>T\<close> and \<open>M\<close>
  hundredths, let the number of bills \<open>billCount\<close> be at least 1,
  \<open>maxPerBill * billCount \<ge> totalAmt\<close> and \<open>totalAmt \<ge> billCount * 0.01\<close>. Then for
  all draws of \<open>Math.random()\<close> in \<open>[0, 1)\<close> the function, run with \<open>fl = exact\<close>,
  returns an array of exactly \<open>billCount\<close> amounts, each greater than 0 and at most
  \<open>maxPerBill\<close>, whose sum is \<open>totalAmt\<close>.
\<close>

lemma distributeAmount_exact_feasible:
  assumes draws: "unit_draws random"
    and totalAmt: "totalAmt = of_int T / 100"
    and maxb: "maxPerBill = of_int M / 100"
    and n1: "1 \<le> billCount"
    and nT: "billCount \<le> T"
    and TM: "T \<le> M * billCount"
  shows "\<exists>amounts.
           distributeAmount exact random totalAmt billCount maxPerBill
             = Inr amounts
         \<and> int (length amounts) = billCount
         \<and> (\<forall>a\<in>set amounts. 0 < a \<and> a \<le> maxPerBill)
         \<and> sum_list amounts = totalAmt
         \<and> \<bar>sum_list amounts - totalAmt\<bar> \<le> 1 / 100"
proof -
  have M1: "1 \<le> M"
  proof (rule ccontr)
    assume "\<not> 1 \<le> M"
    then have "M \<le> 0" by simp
    then have "M * billCount \<le> 0" using n1 by (simp add: mult_le_0_iff)
    then show False using n1 nT TM by linarith
  qed
  define n where "n = nat billCount"
  have n: "int n = billCount" "0 < n" using n1 by (simp_all add: n_def)
  from distribute_loop_cents[OF draws M1, of 0 n T] n nT TM
  obtain cs where cs:
      "distribute_loop exact random n (of_int M / 100) 0 (of_int T / 100)
         = map (\<lambda>c. of_int c / 100) cs"
      "length cs = n" "\<forall>c\<in>set cs. 1 \<le> c \<and> c \<le> M" "sum_list cs = T"
    by (auto simp: mult.commute)
  define amounts :: "rat list" where "amounts = map (\<lambda>c. of_int c / 100) cs"
  have bounds: "\<forall>a\<in>set amounts. 0 < a \<and> a \<le> maxPerBill"
    using cs(3) by (auto simp: amounts_def maxb)
  have sum: "sum_list amounts = totalAmt"
    by (simp add: amounts_def sum_list_cents cs(4) totalAmt)
  have pre: "\<not> totalAmt \<le> 0" "\<not> maxPerBill \<le> 0"
      "\<not> exact (maxPerBill * of_int billCount) < totalAmt"
  proof -
    show "\<not> totalAmt \<le> 0" using n1 nT by (simp add: totalAmt)
    show "\<not> maxPerBill \<le> 0" using M1 by (simp add: maxb)
    have "(of_int T :: rat) \<le> of_int (M * billCount)" using TM by (simp only: of_int_le_iff)
    then show "\<not> exact (maxPerBill * of_int billCount) < totalAmt"
      by (simp add: exact_def maxb totalAmt)
  qed
  have rs: "round2 exact (foldl (\<lambda>acc val. exact (acc + val)) 0 amounts)
            = round2 exact totalAmt"
    by (simp add: foldl_exact_sum sum)
  have "distributeAmount exact random totalAmt billCount maxPerBill = Inr amounts"
    unfolding distributeAmount_def Let_def
    using pre n1 bounds cs(1) rs
    by (simp add: n_def[symmetric] maxb[symmetric] totalAmt[symmetric] amounts_def[symmetric]
          iffD2[OF check_amounts_None] exact_def)
  then show ?thesis using bounds sum cs(2) n by (auto simp: amounts_def)
qed

text \<open>
  At the specification's example: 100.00 over 3 bills of at most 40.00, every draw being
  0.5, gives 30.00, 35.00 and 35.00.
\<close>

lemma distributeAmount_exact_example:
  "unit_draws half_draws \<and> (100 :: rat) = of_int 10000 / 100 \<and> (40 :: rat) = of_int 4000 / 100
   \<and> (1 :: int) \<le> 3 \<and> (3 :: int) \<le> 10000 \<and> (10000 :: int) \<le> 4000 * 3
   \<and> distributeAmount exact half_draws 100 3 40 = Inr [30, 35, 35]
   \<and> (\<exists>amounts. distributeAmount exact half_draws 100 3 40 = Inr amounts
         \<and> int (length amounts) = 3
         \<and> list_all (\<lambda>a. 0 < a \<and> a \<le> 40) amounts
         \<and> sum_list amounts = 100)"
proof -
  have d: "unit_draws half_draws" by (simp add: unit_draws_def half_draws_def)
  have e: "distributeAmount exact half_draws 100 3 40 = Inr [30, 35, 35]" by code_simp
  from distributeAmount_exact_feasible[OF d, of 100 10000 40 4000 3]
  show ?thesis using d e by (simp add: list_all_iff)
qed

text \<open>
  A total below one minor unit per bill cannot be split: 0.01 is not the sum of three
  positive amounts of two decimals. The call \<open>distributeAmount(0.01, 3, 1)\<close> passes the
  four input checks and raises "Generated amount for bill 1 is not positive" in the final
  validation, in ideal arithmetic as well as in doubles.
\<close>

lemma distributeAmount_small_total:
  "(0 :: rat) < 1 / 100 \<and> (1 :: int) \<le> 3 \<and> (0 :: rat) < 1 \<and> (1 :: rat) / 100 \<le> 1 * 3
   \<and> distributeAmount exact half_draws (1 / 100) 3 1 = Inl (AmountNotPositive 1)
   \<and> distributeAmount binary64 half_draws (binary64 (1 / 100)) 3 1
       = Inl (AmountNotPositive 1)"
proof -
  have "distributeAmount exact half_draws (1 / 100) 3 1 = Inl (AmountNotPositive 1)"
    by code_simp
  moreover have "distributeAmount binary64 half_draws (binary64 (1 / 100)) 3 1
      = Inl (AmountNotPositive 1)"
    by code_simp
  ultimately show ?thesis by simp
qed

subsection \<open>Ideal arithmetic: what a returned array satisfies\<close>

text \<open>
  In exact arithmetic, for any input at all, the rounded sum and the rounded total differ
  by at most 0.01, so the correction branch is never taken, and an array that is returned
  has passed the validation loop: it has \<open>billCount\<close> amounts, each greater than 0
  and at most \<open>maxPerBill\<close>, and their sum is within 0.01 of \<open>totalAmt\<close>.
\<close>

lemma round2_exact_near: "\<bar>round2 exact x - x\<bar> \<le> 1 / 200"
proof -
  define c where "c = \<lfloor>x * 100 + 1 / 2\<rfloor>"
  have "of_int c \<le> x * 100 + 1 / 2" "x * 100 + 1 / 2 < of_int c + 1"
    unfolding c_def by linarith+
  then have "\<bar>of_int c / 100 - x\<bar> \<le> 1 / 200" by linarith
  then show ?thesis by (simp add: round2_exact c_def)
qed

lemma distribute_loop_exact_shape:
  "i < n \<Longrightarrow> \<exists>cs. distribute_loop exact random n mx i remaining = map (\<lambda>c. of_int c / 100) cs
         \<and> length cs = n - i
         \<and> \<bar>of_int (sum_list cs) / 100 - remaining\<bar> \<le> 1 / 200"
proof (induction exact random n mx i remaining rule: distribute_loop.induct)
  case (1 random n mx i remaining)
  show ?case
  proof (cases "i + 1 < n")
    case False
    define c where "c = \<lfloor>remaining * 100 + 1 / 2\<rfloor>"
    have "distribute_loop exact random n mx i remaining = [of_int c / 100]"
      using False by (subst distribute_loop.simps) (simp add: round2_exact c_def)
    moreover have "\<bar>of_int c / 100 - remaining\<bar> \<le> 1 / 200"
      using round2_exact_near[of remaining] by (simp add: round2_exact c_def)
    moreover have "n - i = 1" using False "1.prems" by simp
    ultimately show ?thesis by (intro exI[of _ "[c]"]) simp
  next
    case True
    define x where "x = exact (max (minAmountPerBill exact)
               (exact (remaining - exact (of_nat (n - i - 1) * mx)))
          + exact (random i * exact (min mx
               (exact (remaining - exact (of_nat (n - i - 1) * minAmountPerBill exact)))
             - max (minAmountPerBill exact)
               (exact (remaining - exact (of_nat (n - i - 1) * mx))))))"
    define c where "c = \<lfloor>x * 100 + 1 / 2\<rfloor>"
    have amt: "round2 exact x = of_int c / 100" by (simp add: round2_exact c_def)
    have unfold: "distribute_loop exact random n mx i remaining
          = of_int c / 100 # distribute_loop exact random n mx (Suc i)
               (exact (remaining - of_int c / 100))"
      by (subst distribute_loop.simps)
         (simp only: if_P[OF True] Let_def x_def[symmetric] amt)
    have "Suc i < n" using True by simp
    from "1.hyps"[OF True refl refl refl refl refl this, folded x_def, unfolded amt]
    obtain cs where cs: "distribute_loop exact random n mx (Suc i)
            (exact (remaining - of_int c / 100)) = map (\<lambda>c. of_int c / 100) cs"
        "length cs = n - Suc i"
        "\<bar>of_int (sum_list cs) / 100 - exact (remaining - of_int c / 100)\<bar> \<le> 1 / 200"
      by blast
    from cs(3) have "\<bar>of_int (sum_list (c # cs)) / 100 - remaining\<bar> \<le> 1 / 200"
      by (simp add: exact_def add_divide_distrib algebra_simps)
    then show ?thesis using cs(1,2) unfold True
      by (intro exI[of _ "c # cs"]) simp
  qed
qed


lemma distributeAmount_exact_partial:
  assumes "distributeAmount exact random totalAmt billCount maxPerBill = Inr amounts"
  shows "int (length amounts) = billCount
       \<and> (\<forall>a\<in>set amounts. 0 < a \<and> a \<le> maxPerBill)
       \<and> \<bar>sum_list amounts - totalAmt\<bar> \<le> 1 / 100"
proof -
  from assms have n1: "1 \<le> billCount"
    by (auto simp: distributeAmount_def split: if_splits)
  define n where "n = nat billCount"
  have n: "0 < n" "int n = billCount" using n1 by (simp_all add: n_def)
  from distribute_loop_exact_shape[OF n(1), of random maxPerBill totalAmt]
  obtain cs where cs:
      "distribute_loop exact random n maxPerBill 0 totalAmt
         = map (\<lambda>c. of_int c / 100) cs"
      "length cs = n"
      "\<bar>of_int (sum_list cs) / 100 - totalAmt\<bar> \<le> 1 / 200"
    by auto
  define loop where "loop = map (\<lambda>c. (of_int c :: rat) / 100) cs"
  have sum: "sum_list loop = of_int (sum_list cs) / 100"
    by (simp add: loop_def sum_list_cents)
  have rs: "round2 exact (foldl (\<lambda>acc val. exact (acc + val)) 0 loop) = sum_list loop"
    by (simp add: foldl_exact_sum sum round2_exact_cents)
  have "\<bar>sum_list loop - round2 exact totalAmt\<bar> \<le> 1 / 100"
    using cs(3) round2_exact_near[of totalAmt] unfolding sum by linarith
  then have keep: "\<not> \<bar>exact (sum_list loop - round2 exact totalAmt)\<bar> > exact (1 / 100)"
    by (simp add: exact_def not_less)
  from assms have "check_amounts maxPerBill 0 loop = None \<and> amounts = loop"
    unfolding distributeAmount_def Let_def n_def[symmetric] cs(1) loop_def[symmetric] rs
    using keep by (auto split: if_splits option.splits)
  then have chk: "\<forall>a\<in>set loop. 0 < a \<and> a \<le> maxPerBill" and am: "amounts = loop"
    by (simp_all add: check_amounts_None)
  have len: "int (length loop) = billCount" using cs(2) n(2) by (simp add: loop_def)
  have near: "\<bar>sum_list loop - totalAmt\<bar> \<le> 1 / 100" using cs(3) unfolding sum by linarith
  show ?thesis using chk len near unfolding am by blast
qed

subsection \<open>Doubles: the feasibility check and the correction after the validation\<close>


text \<open>
  Claim C3 fails in double arithmetic. The validation loop runs before the residual
  correction and nothing checks the array after it. Take
  \<open>distributeAmount(90000000000000.27, 3, 30000000000000.09)\<close> with every draw 0.5. The
  loop produces 30000000000000.09, 30000000000000.09 and 30000000000000.08 (each the
  double nearest to that decimal), which pass the validation. Their sum
  rounds to 90000000000000.25 and the total to 90000000000000.27 (as the double
  90000000000000.265625), more than 0.01 apart, so the last bill is corrected to
  30000000000000.1 (the double 30000000000000.1015625), which exceeds
  \<open>maxAmountPerBill\<close> (the double 30000000000000.08984375), and the array is returned.
\<close>

theorem distributeAmount_binary64_returns_above_max:
  "distributeAmount binary64 half_draws (binary64 (9000000000000027 / 100)) 3
       (binary64 (3000000000000009 / 100))
     = Inr [7680000000000023 / 256, 7680000000000023 / 256, 3840000000000013 / 128]
   \<and> binary64 (3000000000000009 / 100) = 7680000000000023 / 256
   \<and> (7680000000000023 / 256 :: rat) < 3840000000000013 / 128
   \<and> distribute_loop binary64 half_draws 3 (binary64 (3000000000000009 / 100)) 0
         (binary64 (9000000000000027 / 100))
     = [7680000000000023 / 256, 7680000000000023 / 256, 1920000000000005 / 64]"
proof -
  have a: "distributeAmount binary64 half_draws (binary64 (9000000000000027 / 100)) 3
       (binary64 (3000000000000009 / 100))
     = Inr [7680000000000023 / 256, 7680000000000023 / 256, 3840000000000013 / 128]"
    by code_simp
  have b: "binary64 (3000000000000009 / 100) = 7680000000000023 / 256"
    by code_simp
  have c: "(7680000000000023 / 256 :: rat) < 3840000000000013 / 128" by simp
  have d: "distribute_loop binary64 half_draws 3 (binary64 (3000000000000009 / 100)) 0
         (binary64 (9000000000000027 / 100))
     = [7680000000000023 / 256, 7680000000000023 / 256, 1920000000000005 / 64]"
    by code_simp
  show ?thesis by (intro conjI a b c d)
qed


section \<open>Date generator: proofs\<close>

subsection \<open>Time values and the sampling loop\<close>

lemma msPerDay_pos: "0 < msPerDay" by (simp add: msPerDay_def)

lemma total_days: "(getTime e - getTime s) div 86400000 = e - s"
proof -
  have "getTime e - getTime s = (e - s) * 86400000" by (simp add: getTime_def msPerDay_def algebra_simps)
  then show ?thesis by simp
qed

lemma getTime_less: "getTime a < getTime b \<longleftrightarrow> a < b"
  by (simp add: getTime_def msPerDay_def)

lemma getTime_le: "getTime a \<le> getTime b \<longleftrightarrow> a \<le> b"
  by (simp add: getTime_def msPerDay_def)

lemma isDateProperlySpaced_iff:
  "isDateProperlySpaced d ds m \<longleftrightarrow> (\<forall>x\<in>set ds. m \<le> \<bar>d - date x\<bar>)"
proof (induction ds)
  case Nil
  then show ?case by simp
next
  case (Cons x ds)
  have "\<bar>getTime d - getTime (date x)\<bar> = \<bar>(d - date x) * 86400000\<bar>"
    by (simp add: getTime_def msPerDay_def algebra_simps)
  also have "\<dots> = \<bar>d - date x\<bar> * \<bar>86400000\<bar>" by (rule abs_mult)
  finally have "\<bar>getTime d - getTime (date x)\<bar> = \<bar>d - date x\<bar> * 86400000" by simp
  then have "\<bar>getTime d - getTime (date x)\<bar> < m * 24 * 60 * 60 * 1000 \<longleftrightarrow> \<bar>d - date x\<bar> < m"
    by simp
  with Cons show ?case by (auto simp: Let_def)
qed

lemma sampling_loop_stop:
  assumes "\<not> (int (length (dates st)) < count \<and> int (attempts st) < count * 100)"
  shows "sampling_loop gen random count m st = Inr st"
  by (subst sampling_loop.simps) (simp only: if_not_P[OF assms])

lemma sampling_loop_error:
  assumes "int (length (dates st)) < count \<and> int (attempts st) < count * 100"
    and "gen (random (calls st)) = Inl err"
  shows "sampling_loop gen random count m st = Inl err"
  by (subst sampling_loop.simps) (simp only: if_P[OF assms(1)] assms(2) sum.case)

lemma sampling_loop_accept:
  assumes "int (length (dates st)) < count \<and> int (attempts st) < count * 100"
    and "gen (random (calls st)) = Inr d"
    and "d \<notin> usedDates st \<and> isDateProperlySpaced d (dates st) m"
  shows "sampling_loop gen random count m st =
         sampling_loop gen random count m
           \<lparr>dates = dates st @
              [\<lparr>date = d,
                time = generateRandomTime (random (calls st + 1)) (random (calls st + 2))\<rparr>],
            usedDates = insert d (usedDates st),
            attempts = attempts st + 1,
            calls = calls st + 3\<rparr>"
  by (subst sampling_loop.simps) (simp only: if_P[OF assms(1)] assms(2) sum.case if_P[OF assms(3)])

lemma sampling_loop_reject:
  assumes "int (length (dates st)) < count \<and> int (attempts st) < count * 100"
    and "gen (random (calls st)) = Inr d"
    and "\<not> (d \<notin> usedDates st \<and> isDateProperlySpaced d (dates st) m)"
  shows "sampling_loop gen random count m st =
         sampling_loop gen random count m
           (st\<lparr>attempts := attempts st + 1, calls := calls st + 1\<rparr>)"
  by (subst sampling_loop.simps)
     (simp only: if_P[OF assms(1)] assms(2) sum.case if_not_P[OF assms(3)])

lemma sampling_loop_attempts:
  "sampling_loop gen random count m st = Inr st'
   \<Longrightarrow> int (attempts st') \<le> max (int (attempts st)) (count * 100)
       \<and> calls st' \<le> calls st + 3 * (attempts st' - attempts st)
       \<and> attempts st \<le> attempts st'"
proof (induction gen random count m st rule: sampling_loop.induct)
  case (1 gen random count m st)
  show ?case
  proof (cases "int (length (dates st)) < count \<and> int (attempts st) < count * 100")
    case False
    with "1.prems" have "st' = st" by (simp only: sampling_loop_stop[OF False] sum.inject)
    then show ?thesis by simp
  next
    case True
    show ?thesis
    proof (cases "gen (random (calls st))")
      case (Inl err)
      with "1.prems" True show ?thesis by (simp only: sampling_loop_error[where gen=gen and random=random, OF True Inl]) simp
    next
      case (Inr d)
      show ?thesis
      proof (cases "d \<notin> usedDates st \<and> isDateProperlySpaced d (dates st) m")
        case acc: True
        from "1.prems" have "sampling_loop gen random count m
           \<lparr>dates = dates st @
              [\<lparr>date = d,
                time = generateRandomTime (random (calls st + 1)) (random (calls st + 2))\<rparr>],
            usedDates = insert d (usedDates st),
            attempts = attempts st + 1,
            calls = calls st + 3\<rparr> = Inr st'"
          by (simp only: sampling_loop_accept[where gen=gen and random=random, OF True Inr acc])
        from "1.IH"(1)[OF True Inr acc this] True show ?thesis by simp linarith
      next
        case rej: False
        from "1.prems" have "sampling_loop gen random count m
           (st\<lparr>attempts := attempts st + 1, calls := calls st + 1\<rparr>) = Inr st'"
          by (simp only: sampling_loop_reject[where gen=gen and random=random, OF True Inr rej])
        from "1.IH"(2)[OF True Inr rej this] True show ?thesis by simp linarith
      qed
    qed
  qed
qed


lemma schedule_ok_iff:
  "schedule_ok s e m ds \<longleftrightarrow>
     distinct (map date ds)
     \<and> (\<forall>a\<in>set ds. s \<le> date a \<and> date a \<le> e \<and> time a \<in> business_window)
     \<and> (\<forall>a\<in>set ds. \<forall>b\<in>set ds. date a = date b \<or> m \<le> \<bar>date a - date b\<bar>)"
  by (simp add: schedule_ok_def list_all_iff)

lemma generateRandomTime_window:
  assumes "0 \<le> r1" "r1 < 1" "0 \<le> r2" "r2 < 1"
  shows "generateRandomTime r1 r2 \<in> business_window"
proof -
  define h where "h = 6 + \<lfloor>r1 * 16\<rfloor>"
  define mi where "mi = \<lfloor>r2 * 60\<rfloor>"
  have "0 \<le> \<lfloor>r1 * 16\<rfloor>" using assms by simp
  moreover have "\<lfloor>r1 * 16\<rfloor> < 16" using assms by (simp add: floor_less_iff)
  ultimately have h: "h \<in> {6..<22}" by (simp add: h_def)
  have "0 \<le> \<lfloor>r2 * 60\<rfloor>" using assms by simp
  moreover have "\<lfloor>r2 * 60\<rfloor> < 60" using assms by (simp add: floor_less_iff)
  ultimately have mi: "mi \<in> {0..<60}" by (simp add: mi_def)
  have "generateRandomTime r1 r2 = hhmm h mi"
    by (simp add: generateRandomTime_def hhmm_def h_def mi_def)
  moreover have "hhmm h mi \<in> business_window"
    unfolding business_window_def using h mi by (intro image_eqI[of _ _ "(h, mi)"]) simp_all
  ultimately show ?thesis by simp
qed

lemma sampling_inv_accept:
  assumes inv: "sampling_inv s e m count st"
    and len: "int (length (dates st)) < count"
    and range: "s \<le> d" "d \<le> e"
    and t: "t \<in> business_window"
    and acc: "d \<notin> usedDates st \<and> isDateProperlySpaced d (dates st) m"
  shows "sampling_inv s e m count
           \<lparr>dates = dates st @ [\<lparr>date = d, time = t\<rparr>], usedDates = insert d (usedDates st),
            attempts = a, calls = c\<rparr>"
proof -
  from inv have ok: "schedule_ok s e m (dates st)" and used: "usedDates st = date ` set (dates st)"
    by (simp_all add: sampling_inv_def)
  from acc used have fresh: "d \<notin> date ` set (dates st)" by simp
  from acc have sp: "\<forall>x\<in>set (dates st). m \<le> \<bar>d - date x\<bar>"
    by (simp add: isDateProperlySpaced_iff)
  then have sp': "\<forall>x\<in>set (dates st). m \<le> \<bar>date x - d\<bar>"
    by (simp add: abs_minus_commute)
  have "schedule_ok s e m (dates st @ [\<lparr>date = d, time = t\<rparr>])"
    using ok fresh range t sp sp' unfolding schedule_ok_iff by auto
  then show ?thesis using used len by (simp add: sampling_inv_def)
qed

lemma sampling_loop_inv:
  assumes gen_range: "\<And>i d. gen (random i) = Inr d \<Longrightarrow> s \<le> d \<and> d \<le> e"
    and draws: "unit_draws random"
  shows "sampling_loop gen random count m st = Inr st' \<Longrightarrow> sampling_inv s e m count st
         \<Longrightarrow> sampling_inv s e m count st'
             \<and> \<not> (int (length (dates st')) < count \<and> int (attempts st') < count * 100)"
  using gen_range draws
proof (induction gen random count m st rule: sampling_loop.induct)
  case (1 gen random count m st)
  note run = "1.prems"(1) and inv = "1.prems"(2)
    and gen_range = "1.prems"(3) and draws = "1.prems"(4)
  show ?case
  proof (cases "int (length (dates st)) < count \<and> int (attempts st) < count * 100")
    case False
    with run have "st' = st" by (simp only: sampling_loop_stop[OF False] sum.inject)
    then show ?thesis using False inv by simp
  next
    case True
    show ?thesis
    proof (cases "gen (random (calls st))")
      case (Inl err)
      with run True show ?thesis
        by (simp only: sampling_loop_error[where gen=gen and random=random, OF True Inl]) simp
    next
      case (Inr d)
      show ?thesis
      proof (cases "d \<notin> usedDates st \<and> isDateProperlySpaced d (dates st) m")
        case acc: True
        let ?t = "generateRandomTime (random (calls st + 1)) (random (calls st + 2))"
        let ?st = "\<lparr>dates = dates st @ [\<lparr>date = d, time = ?t\<rparr>],
            usedDates = insert d (usedDates st),
            attempts = attempts st + 1,
            calls = calls st + 3\<rparr>"
        from run have run': "sampling_loop gen random count m ?st = Inr st'"
          by (simp only: sampling_loop_accept[where gen=gen and random=random, OF True Inr acc])
        have t: "?t \<in> business_window"
          using draws by (intro generateRandomTime_window) (simp_all add: unit_draws_def)
        have "sampling_inv s e m count ?st"
          using sampling_inv_accept[OF inv _ _ _ t acc] gen_range[OF Inr] True
          by simp
        from "1.IH"(1)[OF True Inr acc run' this gen_range draws] show ?thesis .
      next
        case rej: False
        let ?st = "st\<lparr>attempts := attempts st + 1, calls := calls st + 1\<rparr>"
        from run have run': "sampling_loop gen random count m ?st = Inr st'"
          by (simp only: sampling_loop_reject[where gen=gen and random=random, OF True Inr rej])
        have "sampling_inv s e m count ?st"
          using inv by (simp add: sampling_inv_def)
        from "1.IH"(2)[OF True Inr rej run' this gen_range draws] show ?thesis .
      qed
    qed
  qed
qed


lemma generateRandomDate_utc_range:
  "generateRandomDate_utc r (Some s) (Some e) = Inr d
   \<Longrightarrow> parseDate s \<le> d \<and> d \<le> parseDate e"
  by (auto simp: generateRandomDate_utc_def Let_def getTime_less not_less getTime_le
           split: if_splits)

lemma generateRandomDate_total:
  "s \<le> e \<Longrightarrow> \<exists>d. generateRandomDate tz r (Some s) (Some e) = Inr d"
  by (simp add: generateRandomDate_def Let_def getTime_less)

lemma generateRandomDate_range:
  assumes tz: "0 \<le> tz" "tz < 1440" and r: "0 \<le> r" "r < 1"
    and res: "generateRandomDate tz r (Some s) (Some e) = Inr d"
  shows "s \<le> d \<and> d \<le> e"
proof -
  from res have se: "s \<le> e"
    by (auto simp: generateRandomDate_def getTime_less split: if_splits)
  define t :: rat where "t = of_int (getTime s) + r * of_int (getTime e - getTime s)"
  from res se have d: "d = localDay tz (TimeClip t)"
    by (simp add: generateRandomDate_def Let_def getTime_less t_def)
  have w: "(0::rat) \<le> of_int (getTime e - getTime s)" using se by (simp add: getTime_le)
  have lo: "of_int (getTime s) \<le> t" using r w unfolding t_def by simp
  have "r * of_int (getTime e - getTime s) \<le> of_int (getTime e - getTime s)"
    using r w by (simp add: mult_left_le_one_le)
  then have hi: "t \<le> of_int (getTime e)" unfolding t_def by simp
  have clo: "getTime s \<le> TimeClip t" using lo unfolding TimeClip_def by (simp add: le_floor_iff le_ceiling_iff)
  have chi: "TimeClip t \<le> getTime e" using hi unfolding TimeClip_def by (simp add: floor_le_iff ceiling_le_iff)
  have clo': "s * 86400000 \<le> TimeClip t" using clo by (simp add: getTime_def msPerDay_def)
  have chi': "TimeClip t \<le> e * 86400000" using chi by (simp add: getTime_def msPerDay_def)
  have d': "d = (TimeClip t + tz * 60000) div 86400000"
    by (simp add: d localDay_def msPerDay_def)
  have 1: "s \<le> d" unfolding d' using clo' tz by linarith
  have 2: "d \<le> e" unfolding d' using chi' tz by linarith
  from 1 2 show ?thesis ..
qed


lemma sampling_start_inv: "0 \<le> count \<Longrightarrow> sampling_inv s e m count sampling_start"
  by (simp add: sampling_inv_def sampling_start_def schedule_ok_def)

lemma schedule_ok_sort:
  "schedule_ok s e m (sort_key f ds) = schedule_ok s e m ds"
proof -
  have "distinct (map date (sort_key f ds)) = distinct (map date ds)"
    by (simp add: distinct_map)
  then show ?thesis by (simp add: schedule_ok_iff)
qed

lemma sorted_by_time: "sorted (map date (sort_key (\<lambda>a. getTime (date a)) ds))"
proof -
  have "sorted (map (\<lambda>a. getTime (date a)) (sort_key (\<lambda>a. getTime (date a)) ds))"
    by (rule sorted_sort_key)
  then show ?thesis
    by (simp add: sorted_map getTime_le)
qed

lemma sampling_finish_schedule:
  assumes gen_range: "\<And>i d. gen (random i) = Inr d \<Longrightarrow> s \<le> d \<and> d \<le> e"
    and draws: "unit_draws random"
    and count: "0 \<le> count"
    and res: "sampling_finish count (sampling_loop gen random count m sampling_start) = Inr ds"
  shows "int (length ds) = count \<and> sorted (map date ds) \<and> schedule_ok s e m ds"
proof -
  from res obtain st where run: "sampling_loop gen random count m sampling_start = Inr st"
    and len: "\<not> int (length (dates st)) < count"
    and ds: "ds = sort_key (\<lambda>a. getTime (date a)) (dates st)"
    by (auto simp: sampling_finish_def split: sum.splits if_splits)
  from sampling_loop_inv[OF gen_range draws run sampling_start_inv[OF count]]
  have inv: "sampling_inv s e m count st" by simp
  with len have "int (length (dates st)) = count" by (simp add: sampling_inv_def)
  moreover have "schedule_ok s e m ds" using inv by (simp add: ds schedule_ok_sort sampling_inv_def)
  ultimately show ?thesis by (simp add: ds sorted_by_time)
qed

lemma generateUniqueDates_utc_schedule:
  assumes "unit_draws random" and "0 \<le> count"
    and "generateUniqueDates_utc random count (Some s) (Some e) m = Inr ds"
  shows "int (length ds) = count \<and> sorted (map date ds)
       \<and> schedule_ok (parseDate s) (parseDate e) m ds"
proof -
  from assms(3) have fin: "sampling_finish count
      (sampling_loop (\<lambda>r. generateRandomDate_utc r (Some s) (Some e)) random count m
         sampling_start) = Inr ds"
    by (simp add: generateUniqueDates_utc_def Let_def split: if_splits)
  have rng: "\<And>i d. generateRandomDate_utc (random i) (Some s) (Some e) = Inr d
      \<Longrightarrow> parseDate s \<le> d \<and> d \<le> parseDate e"
    by (rule generateRandomDate_utc_range)
  show ?thesis
    by (rule sampling_finish_schedule[where gen = "\<lambda>r. generateRandomDate_utc r (Some s) (Some e)",
          OF rng assms(1,2) fin])
qed

lemma generateUniqueDates_east_schedule:
  assumes "unit_draws random" and "0 \<le> count" and "0 \<le> tz" and "tz < 1440"
    and "generateUniqueDates tz random count (Some s) (Some e) m = Inr ds"
  shows "int (length ds) = count \<and> sorted (map date ds) \<and> schedule_ok s e m ds"
proof -
  from assms(5) have fin: "sampling_finish count
      (sampling_loop (\<lambda>r. generateRandomDate tz r (Some s) (Some e)) random count m
         sampling_start) = Inr ds"
    by (simp add: generateUniqueDates_def Let_def split: if_splits)
  have rng: "\<And>i d. generateRandomDate tz (random i) (Some s) (Some e) = Inr d
      \<Longrightarrow> s \<le> d \<and> d \<le> e"
    using generateRandomDate_range[OF assms(3,4)] assms(1) unfolding unit_draws_def by blast
  show ?thesis
    by (rule sampling_finish_schedule[where gen = "\<lambda>r. generateRandomDate tz r (Some s) (Some e)",
          OF rng assms(1,2) fin])
qed

lemma sampling_loop_total:
  assumes "\<And>r. \<exists>d. gen r = Inr d"
  shows "\<exists>st'. sampling_loop gen random count m st = Inr st'"
  using assms
proof (induction gen random count m st rule: sampling_loop.induct)
  case (1 gen random count m st)
  show ?case
  proof (cases "int (length (dates st)) < count \<and> int (attempts st) < count * 100")
    case False
    then show ?thesis by (simp only: sampling_loop_stop[OF False]) simp
  next
    case True
    from "1.prems" obtain d where d: "gen (random (calls st)) = Inr d" by blast
    show ?thesis
    proof (cases "d \<notin> usedDates st \<and> isDateProperlySpaced d (dates st) m")
      case acc: True
      from "1.IH"(1)[OF True d acc "1.prems"] show ?thesis
        by (simp only: sampling_loop_accept[where gen=gen and random=random, OF True d acc])
    next
      case rej: False
      from "1.IH"(2)[OF True d rej "1.prems"] show ?thesis
        by (simp only: sampling_loop_reject[where gen=gen and random=random, OF True d rej])
    qed
  qed
qed


subsection \<open>The claims on the date generator\<close>

text \<open>
  Claim C2 fails on the first revision. On a host five hours west of UTC (\<open>tz = -300\<close>)
  the call \<open>generateUniqueDates(1, "2025-01-01", "2025-01-01", 3)\<close> returns the single
  date 2024-12-31, which lies before \<open>startDate\<close>: UTC midnight of 1 January is 19:00 of
  31 December there, and the date is printed from the local-time getters. The second
  revision returns schedules that satisfy the claim (\<open>generateUniqueDates_utc_schedule\<close>,
  between the dates as \<open>parseDate\<close> reads them), and so does the first on a host at or
  east of UTC (\<open>generateUniqueDates_east_schedule\<close>).
\<close>

theorem generateUniqueDates_west_of_utc_leaves_range:
  "generateUniqueDates (- 300) half_draws 1 (Some 20089) (Some 20089) 3
     = Inr [\<lparr>date = 20088, time = ''14:30''\<rparr>]
   \<and> isoString 20089 = ''2025-01-01'' \<and> isoString 20088 = ''2024-12-31''
   \<and> \<not> schedule_ok 20089 20089 3 [\<lparr>date = 20088, time = ''14:30''\<rparr>]
   \<and> generateUniqueDates_utc half_draws 1 (Some 20089) (Some 20089) 3
     = Inr [\<lparr>date = 20089, time = ''14:30''\<rparr>]"
proof -
  have t: "generateRandomTime (1 / 2) (1 / 2) = ''14:30''" by code_simp
  have "generateUniqueDates (- 300) half_draws 1 (Some 20089) (Some 20089) 3
     = Inr [\<lparr>date = 20088, time = ''14:30''\<rparr>]"
    by (simp add: generateUniqueDates_def sampling_loop.simps sampling_start_def
          sampling_finish_def generateRandomDate_def TimeClip_def localDay_def msPerDay_def
          half_draws_def getTime_def t)
  moreover have "isoString 20089 = ''2025-01-01'' \<and> isoString 20088 = ''2024-12-31''"
    by code_simp
  moreover have "\<not> schedule_ok 20089 20089 3 [\<lparr>date = 20088, time = ''14:30''\<rparr>]"
    by (simp add: schedule_ok_def)
  moreover have "generateUniqueDates_utc half_draws 1 (Some 20089) (Some 20089) 3
     = Inr [\<lparr>date = 20089, time = ''14:30''\<rparr>]"
  proof -
    have g: "generateRandomDate_utc (1 / 2) (Some 20089) (Some 20089) = Inr 20089"
      by code_simp
    have pd: "parseDate 20089 = 20089" by code_simp
    show ?thesis
      using g pd
      by (simp add: generateUniqueDates_utc_def sampling_loop.simps sampling_start_def
            sampling_finish_def msPerDay_def half_draws_def getTime_def t)
  qed
  ultimately show ?thesis by simp
qed

text \<open>
  Claim C4 fails on the first revision: for the same literals \<open>"2025-01-01"\<close> and
  \<open>"2025-01-01"\<close> and the same draw 0.5, \<open>generateRandomDate\<close> prints
  \<open>"2025-01-01"\<close> on a host at UTC and \<open>"2024-12-31"\<close> on a host five hours west of
  it. The second revision, which computes a day offset and prints from the UTC getters,
  takes no time zone at all and prints \<open>"2025-01-01"\<close>.
\<close>

theorem generateRandomDate_depends_on_time_zone:
  "generateRandomDate 0 (1 / 2) (Some 20089) (Some 20089) = Inr 20089
   \<and> generateRandomDate (- 300) (1 / 2) (Some 20089) (Some 20089) = Inr 20088
   \<and> isoString 20089 = ''2025-01-01'' \<and> isoString 20088 = ''2024-12-31''
   \<and> generateRandomDate_utc (1 / 2) (Some 20089) (Some 20089) = Inr 20089"
proof -
  have "generateRandomDate 0 (1 / 2) (Some 20089) (Some 20089) = Inr 20089
   \<and> generateRandomDate (- 300) (1 / 2) (Some 20089) (Some 20089) = Inr 20088"
    by (simp add: generateRandomDate_def TimeClip_def localDay_def msPerDay_def getTime_def)
  moreover have "isoString 20089 = ''2025-01-01'' \<and> isoString 20088 = ''2024-12-31''"
    by code_simp
  moreover have "generateRandomDate_utc (1 / 2) (Some 20089) (Some 20089) = Inr 20089"
    by code_simp
  ultimately show ?thesis by simp
qed

text \<open>
  Claim C8. For valid dates \<open>startDate \<le> endDate\<close> and a range that passes the spacing
  check (for any other input the call raises before the loop), the loop of
  \<open>generateUniqueDates\<close> ends in a state whose counter \<open>attempts\<close>, one per draw of a
  date, is at most \<open>count * 100\<close>; and the call then fails with the "Could not
  generate" error exactly when fewer than \<open>count\<close> dates were accepted, returning the
  sorted dates otherwise. The loop is a total function: its recursion is bounded by
  \<open>count * 100 - attempts\<close>.
\<close>

theorem generateUniqueDates_attempts_bounded:
  assumes "startDay \<le> endDay"
    and "(count - 1) * minDaysApart \<le> endDay - startDay"
  shows "\<exists>st. sampling_loop (\<lambda>r. generateRandomDate tz r (Some startDay) (Some endDay))
                random count minDaysApart sampling_start = Inr st
            \<and> int (attempts st) \<le> max 0 (count * 100)
            \<and> generateUniqueDates tz random count (Some startDay) (Some endDay) minDaysApart
                = (if int (length (dates st)) < count
                   then Inl (CouldNotGenerate count (count * 100))
                   else Inr (sort_key (\<lambda>a. getTime (date a)) (dates st)))"
proof -
  have "\<And>r. \<exists>d. generateRandomDate tz r (Some startDay) (Some endDay) = Inr d"
    using generateRandomDate_total[OF assms(1)] .
  from sampling_loop_total[where gen = "\<lambda>r. generateRandomDate tz r (Some startDay) (Some endDay)",
      OF this]
  obtain st where st: "sampling_loop (\<lambda>r. generateRandomDate tz r (Some startDay) (Some endDay))
                random count minDaysApart sampling_start = Inr st"
    by blast
  from sampling_loop_attempts[OF st] have "int (attempts st) \<le> max 0 (count * 100)"
    by (simp add: sampling_start_def)
  moreover have "generateUniqueDates tz random count (Some startDay) (Some endDay) minDaysApart
                = (if int (length (dates st)) < count
                   then Inl (CouldNotGenerate count (count * 100))
                   else Inr (sort_key (\<lambda>a. getTime (date a)) (dates st)))"
    using assms by (simp add: generateUniqueDates_def Let_def getTime_less total_days
        sampling_finish_def st not_less)
  ultimately show ?thesis using st by blast
qed


text \<open>
  The theorem where the search is exhausted: two bills on a range of one day. The first
  draw is accepted, the next 199 are rejected, and the call fails after 200 attempts.
\<close>

theorem generateUniqueDates_attempts_bounded_witness:
  "(20089 :: int) \<le> 20089 \<and> ((2 :: int) - 1) * 0 \<le> 20089 - 20089
   \<and> generateUniqueDates 0 half_draws 2 (Some 20089) (Some 20089) 0
       = Inl (CouldNotGenerate 2 200)
   \<and> (\<exists>st. sampling_loop (\<lambda>r. generateRandomDate 0 r (Some 20089) (Some 20089))
                half_draws 2 0 sampling_start = Inr st
            \<and> int (attempts st) \<le> 200 \<and> int (length (dates st)) < 2)"
proof -
  have e: "generateUniqueDates 0 half_draws 2 (Some 20089) (Some 20089) 0
       = Inl (CouldNotGenerate 2 200)"
    by (simp add: generateUniqueDates_def sampling_loop.simps sampling_start_def
          sampling_finish_def generateRandomDate_def TimeClip_def localDay_def msPerDay_def
          half_draws_def getTime_def)
  have p1: "(20089 :: int) \<le> 20089" by simp
  have p2: "((2 :: int) - 1) * 0 \<le> 20089 - 20089" by simp
  from generateUniqueDates_attempts_bounded[OF p1 p2, of 0 half_draws]
  obtain st where st:
      "sampling_loop (\<lambda>r. generateRandomDate 0 r (Some 20089) (Some 20089))
         half_draws 2 0 sampling_start = Inr st"
      "int (attempts st) \<le> max 0 (2 * 100)"
      "generateUniqueDates 0 half_draws 2 (Some 20089) (Some 20089) 0
         = (if int (length (dates st)) < 2 then Inl (CouldNotGenerate 2 (2 * 100))
            else Inr (sort_key (\<lambda>a. getTime (date a)) (dates st)))"
    by blast
  from st(3) have len: "int (length (dates st)) < 2"
    unfolding e by (simp split: if_splits)
  from st(2) have att: "int (attempts st) \<le> 200" by simp
  have "\<exists>st. sampling_loop (\<lambda>r. generateRandomDate 0 r (Some 20089) (Some 20089))
                half_draws 2 0 sampling_start = Inr st
            \<and> int (attempts st) \<le> 200 \<and> int (length (dates st)) < 2"
    using st(1) att len by blast
  with p1 p2 e show ?thesis by (simp only: simp_thms)
qed



text \<open>
  Two remarks on the edges of that statement. A negative \<open>minDaysApart\<close>, outside its
  documented domain, makes \<open>(count - 1) * minDaysApart\<close> positive and can trip the range
  check. In the second revision the literals \<open>"0050-01-01"\<close> and \<open>"0150-01-01"\<close> are
  read as 1 January 1950 and 1 January 150, and the call raises "End date cannot be
  before start date".
\<close>

lemma generateUniqueDates_negative_spacing:
  "generateUniqueDates 0 half_draws 0 (Some 20089) (Some 20089) (- 3) = Inl (RangeTooSmall 4 1)"
  by (simp add: generateUniqueDates_def getTime_def msPerDay_def)

lemma generateUniqueDates_utc_two_digit_year:
  "days_from_civil 50 1 1 = - 701265 \<and> days_from_civil 150 1 1 = - 664741
   \<and> parseDate (- 701265) = days_from_civil 1950 1 1
   \<and> parseDate (- 664741) = - 664741
   \<and> generateUniqueDates_utc half_draws 0 (Some (- 701265)) (Some (- 664741)) 3
       = Inl EndBeforeStart
   \<and> generateRandomDate_utc (1 / 2) (Some (- 701265)) (Some (- 701265)) = Inr (- 7305)
   \<and> isoString (- 7305) = ''1950-01-01''"
  by code_simp


section \<open>Validator: proofs\<close>

subsection \<open>Which values convert\<close>

lemma converts_primitive:
  "converts Undefined" "converts Null" "converts (Bool b)" "converts (Num n)"
  "converts (NumInf positive)" "converts (Str s)"
  by (simp_all add: converts_def)

lemma converts_object:
  "converts (Obj properties) \<longleftrightarrow> units ''toString'' \<notin> set (map fst properties)"
  by (simp add: converts_def)





subsection \<open>No validator raises on fields that convert\<close>
















subsection \<open>The number of bills\<close>

lemma parseInt_number_plain:
  assumes "1 \<le> n" "n < 10 ^ 21"
  shows "parseInt_number n = Fin (of_int \<lfloor>n\<rfloor>)"
proof -
  have "(1 :: rat) / 10 ^ 6 \<le> 1" by simp
  then have "1 / 10 ^ 6 \<le> \<bar>n\<bar>" using assms(1) by linarith
  then show ?thesis using assms by (simp add: parseInt_number_def)
qed

text \<open>
  Claim C6, as amended. \<open>validateNumberOfBills\<close> compares \<open>parseInt\<close> and \<open>parseFloat\<close>
  of its input as numbers, so it reports the whole-number violation when the value has a
  fractional part, as the string \<open>"3.5"\<close> and every number from 1 up to \<open>10\<^sup>2\<^sup>1\<close> that is
  not an integer have, and accepts with no violation an input that is numerically
  integral, in whatever form it is written: the string \<open>"3.0"\<close> and the integer 3 alike.
\<close>

theorem validateNumberOfBills_numeric:
  "validateNumberOfBills (Str (units ''3.5''))
     = Inr (Some (Text ''Number of Bills must be a whole number''))
   \<and> validateNumberOfBills (Str (units ''3.0'')) = Inr None
   \<and> validateNumberOfBills (Num 3) = Inr None
   \<and> (\<forall>n. 1 \<le> n \<and> n < 10 ^ 21 \<longrightarrow>
          validateNumberOfBills (Num n)
            = Inr (if n \<in> \<int> then None
                   else Some (Text ''Number of Bills must be a whole number'')))"
proof -
  have a: "validateNumberOfBills (Str (units ''3.5''))
      = Inr (Some (Text ''Number of Bills must be a whole number''))" by code_simp
  have b: "validateNumberOfBills (Str (units ''3.0'')) = Inr None" by code_simp
  have c: "validateNumberOfBills (Num 3) = Inr None" by code_simp
  have d: "validateNumberOfBills (Num n)
            = Inr (if n \<in> \<int> then None
                   else Some (Text ''Number of Bills must be a whole number''))"
    if n: "1 \<le> n" "n < 10 ^ 21" for n
  proof -
    have fl: "1 \<le> \<lfloor>n\<rfloor>" using n(1) by simp
    have int: "(of_int \<lfloor>n\<rfloor> = n) = (n \<in> \<int>)"
      by (metis Ints_of_int floor_of_int Ints_cases)
    have "validateNumberOfBills (Num n)
        = Inr (if of_int \<lfloor>n\<rfloor> = n then None
               else Some (Text ''Number of Bills must be a whole number''))"
      using fl by (simp add: validateNumberOfBills_def parseInt_def parseFloat_def
          parseInt_number_plain[OF n] is_missing_def jsnum_neq_def Let_def not_less)
    then show ?thesis by (simp only: int)
  qed
  show ?thesis using a b c d by blast
qed

theorem validateNumberOfBills_numeric_witness:
  "(1 :: rat) \<le> 7 / 2 \<and> (7 / 2 :: rat) < 10 ^ 21 \<and> (7 / 2 :: rat) \<notin> \<int>
   \<and> validateNumberOfBills (Num (7 / 2))
       = Inr (Some (Text ''Number of Bills must be a whole number''))"
proof -
  have "\<lfloor>7 / 2 :: rat\<rfloor> = 3" by (simp add: floor_eq_iff)
  then have "frac (7 / 2 :: rat) \<noteq> 0" by (simp add: frac_def)
  then have ni: "(7 / 2 :: rat) \<notin> \<int>" by (simp add: frac_eq_0_iff)
  have p: "(1 :: rat) \<le> 7 / 2 \<and> (7 / 2 :: rat) < 10 ^ 21" by simp
  from validateNumberOfBills_numeric p ni
  have "validateNumberOfBills (Num (7 / 2))
       = Inr (Some (Text ''Number of Bills must be a whole number''))"
    by presburger
  with p ni show ?thesis by blast
qed

text \<open>
  Claim C6 as stated fails: for the string \<open>"3.0"\<close> both \<open>parseInt\<close> and \<open>parseFloat\<close>
  give 3, the comparison \<open>num !== parseFloat(numberOfBills)\<close> is false, and no violation
  is reported, exactly as for the integer 3.
\<close>

theorem validateNumberOfBills_fractional_form_counterexample:
  "validateNumberOfBills (Str (units ''3.0'')) = Inr None
   \<and> validateNumberOfBills (Num 3) = Inr None
   \<and> parseInt (Str (units ''3.0'')) = Inr (Fin 3)
   \<and> parseFloat (Str (units ''3.0'')) = Inr (Fin 3)"
  by code_simp


section \<open>PDF merger: proofs\<close>

lemma merge_loop_concat:
  "list_all2 (loads_as load fs) pdfPaths docs
   \<Longrightarrow> merge_loop load fs pdfPaths mergedPdf = Inr (mergedPdf @ concat docs)"
proof (induction pdfPaths docs arbitrary: mergedPdf rule: list_all2_induct)
  case Nil
  then show ?case by simp
next
  case (Cons p ps d ds)
  from Cons.hyps(1) obtain b where "contents fs p = Some b" "load b = Some d"
    by (auto simp: loads_as_def bind_eq_Some_conv)
  then show ?case by (simp add: Cons.IH)
qed

text \<open>
  Claim C9. When every input path is a file that loads, as the documents \<open>docs\<close> in
  order, \<open>mergePDFs\<close> writes to \<open>outputPath\<close> the serialisation of the concatenation of
  \<open>docs\<close>, the pages of the inputs in the given order, and returns \<open>outputPath\<close>. Merging
  the inputs followed by one more document \<open>C\<close> gives the pages of the merge of the
  inputs followed by the pages of \<open>C\<close>: for inputs \<open>[A, B]\<close>, merging \<open>[A, B, C]\<close> is
  merging \<open>[A, B]\<close> and then appending \<open>C\<close>.
\<close>

theorem mergePDFs_concatenates:
  assumes "list_all2 (loads_as load fs) pdfPaths docs"
  shows "mergePDFs load save fs pdfPaths outputPath
           = Inr (fs\<lparr>contents := (contents fs)(outputPath \<mapsto> save (concat docs))\<rparr>, outputPath)
       \<and> merge_loop load fs pdfPaths [] = Inr (concat docs)
       \<and> (\<forall>c C. loads_as load fs c C \<longrightarrow>
             merge_loop load fs (pdfPaths @ [c]) [] = Inr (concat docs @ C))"
proof -
  have 1: "merge_loop load fs pdfPaths [] = Inr (concat docs)"
    using merge_loop_concat[OF assms, of "[]"] by simp
  have 2: "merge_loop load fs (pdfPaths @ [c]) [] = Inr (concat docs @ C)"
    if "loads_as load fs c C" for c C
  proof -
    from assms that have "list_all2 (loads_as load fs) (pdfPaths @ [c]) (docs @ [C])"
      by (simp add: list_all2_appendI)
    from merge_loop_concat[OF this, of "[]"] show ?thesis by simp
  qed
  show ?thesis using 1 2 by (simp add: mergePDFs_def)
qed


theorem mergePDFs_concatenates_witness:
  "list_all2 (loads_as toy_load toy_fs) [''d/fuel-bill-1.pdf'', ''d/fuel-bill-2.pdf'']
     [''ab'', ''c'']
   \<and> loads_as toy_load toy_fs ''d/fuel-bill-3.pdf'' ''de''
   \<and> merge_loop toy_load toy_fs [''d/fuel-bill-1.pdf'', ''d/fuel-bill-2.pdf''] [] = Inr ''abc''
   \<and> merge_loop toy_load toy_fs
         [''d/fuel-bill-1.pdf'', ''d/fuel-bill-2.pdf'', ''d/fuel-bill-3.pdf''] []
       = Inr (''abc'' @ ''de'')
   \<and> output_of
         (mergePDFs toy_load toy_save toy_fs [''d/fuel-bill-1.pdf'', ''d/fuel-bill-2.pdf'']
            ''d/merged.pdf'')
       = Inr (Some ''%PDFabc'', ''d/merged.pdf'')"
proof -
  have 1: "list_all2 (loads_as toy_load toy_fs) [''d/fuel-bill-1.pdf'', ''d/fuel-bill-2.pdf'']
     [''ab'', ''c'']"
    by (simp add: loads_as_def toy_fs_def toy_load_def)
  have 2: "loads_as toy_load toy_fs ''d/fuel-bill-3.pdf'' ''de''"
    by (simp add: loads_as_def toy_fs_def toy_load_def)
  note t = mergePDFs_concatenates[OF 1, of toy_save "''d/merged.pdf''"]
  from t have 3: "merge_loop toy_load toy_fs [''d/fuel-bill-1.pdf'', ''d/fuel-bill-2.pdf''] []
      = Inr ''abc''"
    by simp
  from t 2 have 4: "merge_loop toy_load toy_fs
         ([''d/fuel-bill-1.pdf'', ''d/fuel-bill-2.pdf''] @ [''d/fuel-bill-3.pdf'']) []
       = Inr (concat [''ab'', ''c''] @ ''de'')"
    by blast
  from t have 5: "output_of
         (mergePDFs toy_load toy_save toy_fs [''d/fuel-bill-1.pdf'', ''d/fuel-bill-2.pdf'']
            ''d/merged.pdf'')
       = Inr (Some ''%PDFabc'', ''d/merged.pdf'')"
    by (simp add: toy_save_def output_of_def)
  from 4 have 6: "merge_loop toy_load toy_fs
         [''d/fuel-bill-1.pdf'', ''d/fuel-bill-2.pdf'', ''d/fuel-bill-3.pdf''] []
       = Inr (''abc'' @ ''de'')"
    by simp
  show ?thesis by (intro conjI 1 2 3 6 5)
qed

text \<open>
  Claim C5, as amended. Merging the files of a directory fails when no file matches:
  \<open>mergePDFsInDirectory\<close> raises "No PDF files found matching pattern" when none of the
  names in the directory contains the pattern and ends in \<open>.pdf\<close>, before \<open>mergePDFs\<close>
  is called. \<open>mergePDFs\<close> itself has no such guard: given an empty list of paths it
  writes the document with no pages added to \<open>outputPath\<close> and returns \<open>outputPath\<close>.
\<close>

theorem mergePDFsInDirectory_no_files:
  assumes "readdir fs directory = Some names"
    and "filter (\<lambda>file. String_includes file pattern \<and> endsWith file ''.pdf'') names = []"
  shows "mergePDFsInDirectory load save fs directory pattern outputFileName
           = Inl (NoPDFFilesFound pattern)
       \<and> mergePDFs load save fs [] outputPath
           = Inr (fs\<lparr>contents := (contents fs)(outputPath \<mapsto> save [])\<rparr>, outputPath)"
  using assms by (simp add: mergePDFsInDirectory_def mergePDFs_def)

theorem mergePDFsInDirectory_no_files_witness:
  "readdir toy_fs ''d''
     = Some [''notes.txt'', ''fuel-bill-3.pdf'', ''fuel-bill-1.pdf'', ''fuel-bill-2.pdf'']
   \<and> filter (\<lambda>file. String_includes file ''invoice-'' \<and> endsWith file ''.pdf'')
        [''notes.txt'', ''fuel-bill-3.pdf'', ''fuel-bill-1.pdf'', ''fuel-bill-2.pdf''] = []
   \<and> mergePDFsInDirectory toy_load toy_save toy_fs ''d'' ''invoice-'' ''merged.pdf''
       = Inl (NoPDFFilesFound ''invoice-'')"
proof -
  have 1: "readdir toy_fs ''d''
     = Some [''notes.txt'', ''fuel-bill-3.pdf'', ''fuel-bill-1.pdf'', ''fuel-bill-2.pdf'']"
    by (simp add: toy_fs_def)
  have 2: "filter (\<lambda>file. String_includes file ''invoice-'' \<and> endsWith file ''.pdf'')
        [''notes.txt'', ''fuel-bill-3.pdf'', ''fuel-bill-1.pdf'', ''fuel-bill-2.pdf''] = []"
    by code_simp
  from mergePDFsInDirectory_no_files[OF 1 2, of toy_load toy_save "''merged.pdf''"]
  have 3: "mergePDFsInDirectory toy_load toy_save toy_fs ''d'' ''invoice-'' ''merged.pdf''
       = Inl (NoPDFFilesFound ''invoice-'')"
    by blast
  show ?thesis by (intro conjI 1 2 3)
qed

text \<open>
  Claim C5 as stated fails: \<open>mergePDFs\<close> applied to the empty list of paths does not
  fail. It writes a file (here the bare header) and returns the output path.
\<close>

theorem mergePDFs_empty_input_counterexample:
  "output_of (mergePDFs toy_load toy_save toy_fs [] ''d/out.pdf'')
   = Inr (Some ''%PDF'', ''d/out.pdf'')"
  by (simp add: mergePDFs_def toy_save_def output_of_def)

end
